theory Spec2Isabelle
  imports Main "HOL-Library.AList"
begin

section \<open>Go strings, runes and UTF-8\<close>

text \<open>
  A Go string is a sequence of bytes, so it is a \<^typ>\<open>string\<close> here (a \<^typ>\<open>char\<close> is a
  byte). \<open>len(s)\<close> is \<^term>\<open>length s\<close>, the number of bytes. A rune is a code point.
  \<open>[]rune(s)\<close> and \<open>for i, r := range s\<close> decode UTF-8: a byte that starts no
  well-formed sequence is read as U+FFFD and one byte is consumed. \<open>string(r)\<close> encodes
  a rune; a surrogate or a value above U+10FFFF is encoded as U+FFFD.
\<close>

type_synonym rune = nat

datatype error =
  IndexOutOfRange | SliceOutOfRange | TypeAssertion | RegexpSyntax | OutOfFuel | Unsupported

definition RuneError :: rune where
  "RuneError = 0xFFFD"

definition byte :: "char \<Rightarrow> nat" where
  "byte c = of_char c"

definition cont :: "char \<Rightarrow> bool" where
  "cont c = (0x80 \<le> byte c \<and> byte c \<le> 0xBF)"

definition second_lo :: "nat \<Rightarrow> nat" where
  "second_lo b0 = (if b0 = 0xE0 then 0xA0 else if b0 = 0xF0 then 0x90 else 0x80)"

definition second_hi :: "nat \<Rightarrow> nat" where
  "second_hi b0 = (if b0 = 0xED then 0x9F else if b0 = 0xF4 then 0x8F else 0xBF)"

text \<open>\<open>utf8.DecodeRuneInString\<close>: the first rune of the string and its width in bytes.\<close>

fun DecodeRuneInString :: "string \<Rightarrow> rune \<times> nat" where
  "DecodeRuneInString [] = (RuneError, 0)"
| "DecodeRuneInString (c0 # cs) =
     (let b0 = byte c0 in
      if b0 < 0x80 then (b0, 1)
      else if 0xC2 \<le> b0 \<and> b0 \<le> 0xDF then
        (case cs of
           c1 # _ \<Rightarrow>
             if cont c1 then ((b0 - 0xC0) * 64 + (byte c1 - 0x80), 2) else (RuneError, 1)
         | [] \<Rightarrow> (RuneError, 1))
      else if 0xE0 \<le> b0 \<and> b0 \<le> 0xEF then
        (case cs of
           c1 # c2 # _ \<Rightarrow>
             if second_lo b0 \<le> byte c1 \<and> byte c1 \<le> second_hi b0 \<and> cont c2
             then ((b0 - 0xE0) * 4096 + (byte c1 - 0x80) * 64 + (byte c2 - 0x80), 3)
             else (RuneError, 1)
         | _ \<Rightarrow> (RuneError, 1))
      else if 0xF0 \<le> b0 \<and> b0 \<le> 0xF4 then
        (case cs of
           c1 # c2 # c3 # _ \<Rightarrow>
             if second_lo b0 \<le> byte c1 \<and> byte c1 \<le> second_hi b0 \<and> cont c2 \<and> cont c3
             then ((b0 - 0xF0) * 262144 + (byte c1 - 0x80) * 4096
                     + (byte c2 - 0x80) * 64 + (byte c3 - 0x80), 4)
             else (RuneError, 1)
         | _ \<Rightarrow> (RuneError, 1))
      else (RuneError, 1))"

text \<open>The runes of a string, each with the bytes it was read from.\<close>

fun chunks :: "string \<Rightarrow> (rune \<times> string) list" where
  "chunks [] = []"
| "chunks (c # cs) =
     (let w = snd (DecodeRuneInString (c # cs))
      in (fst (DecodeRuneInString (c # cs)), c # take (w - 1) cs) # chunks (drop (w - 1) cs))"

text \<open>\<open>[]rune(s)\<close>.\<close>

definition runes :: "string \<Rightarrow> rune list" where
  "runes s = map fst (chunks s)"

text \<open>\<open>string(r)\<close> for a rune \<open>r\<close>, and \<open>string(rs)\<close> for a rune slice.\<close>

definition EncodeRune :: "rune \<Rightarrow> string" where
  "EncodeRune r =
     (if r < 0x80 then [char_of r]
      else if r < 0x800 then [char_of (0xC0 + r div 64), char_of (0x80 + r mod 64)]
      else if (0xD800 \<le> r \<and> r \<le> 0xDFFF) \<or> 0x10FFFF < r
        then [char_of (0xEF::nat), char_of (0xBF::nat), char_of (0xBD::nat)]
      else if r < 0x10000
        then [char_of (0xE0 + r div 4096), char_of (0x80 + (r div 64) mod 64),
              char_of (0x80 + r mod 64)]
      else [char_of (0xF0 + r div 262144), char_of (0x80 + (r div 4096) mod 64),
            char_of (0x80 + (r div 64) mod 64), char_of (0x80 + r mod 64)])"

definition gostring :: "rune list \<Rightarrow> string" where
  "gostring rs = concat (map EncodeRune rs)"

text \<open>
  Slicing \<open>xs[lo:hi]\<close> with Go's bounds check. The capacity of a slice is taken to be
  its length, as it is for a string.
\<close>

definition slice :: "'a list \<Rightarrow> int \<Rightarrow> int \<Rightarrow> error + 'a list" where
  "slice xs lo hi =
     (if 0 \<le> lo \<and> lo \<le> hi \<and> hi \<le> int (length xs)
      then Inr (take (nat hi - nat lo) (drop (nat lo) xs))
      else Inl SliceOutOfRange)"

text \<open>\<open>strings.ReplaceAll\<close> for a non-empty pattern: leftmost, non-overlapping matches.\<close>

function ReplaceAll :: "string \<Rightarrow> string \<Rightarrow> string \<Rightarrow> string" where
  "ReplaceAll [] old new = []"
| "ReplaceAll (c # cs) old new =
     (if old \<noteq> [] \<and> take (length old) (c # cs) = old
      then new @ ReplaceAll (drop (length old) (c # cs)) old new
      else c # ReplaceAll cs old new)"
  by pat_completeness auto
termination
  by (relation "measure (\<lambda>(s, old, new). length s)") (auto simp: neq_Nil_conv)

section \<open>Letters of the constant package\<close>

text \<open>
  Modelled from the spec: the package \<open>constant\<close> is not among the sources. Its letter
  constants are the Arabic letters the spec names, each a one-rune string; they are given
  their Unicode code points here.
\<close>

definition HAMZA :: string where "HAMZA = EncodeRune 0x621"
definition ALEF_MADDA :: string where "ALEF_MADDA = EncodeRune 0x622"
definition ALEF_HAMZA_ABOVE :: string where "ALEF_HAMZA_ABOVE = EncodeRune 0x623"
definition WAW_HAMZA :: string where "WAW_HAMZA = EncodeRune 0x624"
definition ALEF_HAMZA_BELOW :: string where "ALEF_HAMZA_BELOW = EncodeRune 0x625"
definition YEH_HAMZA :: string where "YEH_HAMZA = EncodeRune 0x626"
definition ALEF :: string where "ALEF = EncodeRune 0x627"
definition TEH_MARBUTA :: string where "TEH_MARBUTA = EncodeRune 0x629"
definition TEH :: string where "TEH = EncodeRune 0x62A"
definition DAL :: string where "DAL = EncodeRune 0x62F"
definition TAH :: string where "TAH = EncodeRune 0x637"
definition NOON :: string where "NOON = EncodeRune 0x646"
definition WAW :: string where "WAW = EncodeRune 0x648"
definition ALEF_MAKSURA :: string where "ALEF_MAKSURA = EncodeRune 0x649"
definition YEH :: string where "YEH = EncodeRune 0x64A"
definition HAMZA_ABOVE :: string where "HAMZA_ABOVE = EncodeRune 0x654"
definition HAMZA_BELOW :: string where "HAMZA_BELOW = EncodeRune 0x655"

section \<open>The stemmer and its collaborators\<close>

text \<open>
  The affix trees are nested \<open>map[string]interface{}\<close> values. A value is either another
  map or the string \<open>"#"\<close>; the key \<open>"#"\<close> of a node holds the map of the affixes that
  end at the node.
\<close>

datatype tree = Mark | Branch "(string \<times> tree) list"

type_synonym branch = "(string \<times> tree) list"

type_synonym segment = "int \<times> int"

type_synonym segmap = "(int \<times> segment list) list"

text \<open>
  The struct \<open>ArabicLightStemmer\<close> with its collaborators flattened into it: the stopword
  table of \<open>stopwordManager\<close>, the normalised verb list of \<open>verbListManager\<close>, the root
  set of \<open>rootsManager\<close>. The tables \<open>constant.TASHKEEL\<close>, \<open>constant.VERB_AFFIX_LIST\<close>,
  \<open>constant.NOUN_AFFIX_LIST\<close> and the library predicate \<open>unicode.IsLetter\<close> are not
  among the sources and are fields too.
\<close>

record ArabicLightStemmer =
  stopwords :: "(string \<times> (string \<times> string) list) list"
  IsLetter :: "rune \<Rightarrow> bool"
  TASHKEEL :: "rune list"
  verbList :: "string list"
  roots :: "string list"
  VERB_AFFIX_LIST :: "string list"
  NOUN_AFFIX_LIST :: "string list"
  prefixLetters :: string
  suffixLetters :: string
  infixLetters :: string
  maxPrefixLength :: int
  maxSuffixLength :: int
  minStemLength :: int
  joker :: string
  prefixList :: "string list"
  suffixList :: "string list"
  prefixesTree :: branch
  suffixesTree :: branch

subsection \<open>Tashkeel stripping\<close>

definition IsTashkeel :: "ArabicLightStemmer \<Rightarrow> rune \<Rightarrow> bool" where
  "IsTashkeel als r = (r \<in> set (TASHKEEL als))"

definition IsAlpha :: "ArabicLightStemmer \<Rightarrow> string \<Rightarrow> bool" where
  "IsAlpha als word = list_all (IsLetter als) (runes word)"

definition IsVocalized :: "ArabicLightStemmer \<Rightarrow> string \<Rightarrow> bool" where
  "IsVocalized als word =
     (if IsAlpha als word then False else list_ex (IsTashkeel als) (runes word))"

definition StripTashkeel :: "ArabicLightStemmer \<Rightarrow> string \<Rightarrow> string" where
  "StripTashkeel als text =
     (if text = [] then text
      else if IsVocalized als text
        then gostring (filter (\<lambda>r. \<not> IsTashkeel als r) (runes text))
      else text)"

subsection \<open>Stopword table\<close>

definition IsStopword :: "ArabicLightStemmer \<Rightarrow> string \<Rightarrow> bool" where
  "IsStopword als word = (map_of (stopwords als) word \<noteq> None)"

text \<open>Reading a key that a Go map does not hold gives the empty string.\<close>

definition StopStem :: "ArabicLightStemmer \<Rightarrow> string \<Rightarrow> string" where
  "StopStem als word =
     (case map_of (stopwords als) word of
        None \<Rightarrow> []
      | Some stopWord \<Rightarrow>
          StripTashkeel als (case map_of stopWord ''stem'' of None \<Rightarrow> [] | Some s \<Rightarrow> s))"

definition StopRoot :: "ArabicLightStemmer \<Rightarrow> string \<Rightarrow> string" where
  "StopRoot als word = StopStem als word"

subsection \<open>Affix trees\<close>

definition hasHash :: "branch \<Rightarrow> bool" where
  "hasHash b = (map_of b ''#'' \<noteq> None)"

fun insertAffix :: "string list \<Rightarrow> string \<Rightarrow> branch \<Rightarrow> error + branch" where
  "insertAffix [] affix b =
     (case map_of b ''#'' of
        None \<Rightarrow> Inr (AList.update ''#'' (Branch [(affix, Mark)]) b)
      | Some Mark \<Rightarrow> Inl TypeAssertion
      | Some (Branch t) \<Rightarrow> Inr (AList.update ''#'' (Branch (AList.update affix Mark t)) b))"
| "insertAffix (k # ks) affix b =
     (case (case map_of b k of None \<Rightarrow> Branch [] | Some t \<Rightarrow> t) of
        Mark \<Rightarrow> Inl TypeAssertion
      | Branch sub \<Rightarrow>
          (case insertAffix ks affix sub of
             Inl e \<Rightarrow> Inl e
           | Inr sub' \<Rightarrow> Inr (AList.update k (Branch sub') b)))"

fun insertAll :: "(string \<Rightarrow> string list) \<Rightarrow> string list \<Rightarrow> branch \<Rightarrow> error + branch" where
  "insertAll path [] b = Inr b"
| "insertAll path (a # as) b =
     (case insertAffix (path a) a b of Inl e \<Rightarrow> Inl e | Inr b' \<Rightarrow> insertAll path as b')"

definition createPrefixTree :: "string list \<Rightarrow> error + branch" where
  "createPrefixTree ps = insertAll (\<lambda>p. map EncodeRune (runes p)) ps []"

text \<open>
  \<open>utf8.DecodeLastRuneInString\<close>: the last rune of the string and its width. It steps
  back over at most three continuation bytes and decodes from there.
\<close>

definition DecodeLastRuneInString :: "string \<Rightarrow> rune \<times> nat" where
  "DecodeLastRuneInString s =
     (if s = [] then (RuneError, 0)
      else if byte (last s) < 0x80 then (byte (last s), 1)
      else let lim = length s - 4;
               starts = filter (\<lambda>k. \<not> cont (s ! k)) (rev [lim..<length s - 1]);
               start = (case starts of k # _ \<Rightarrow> k | [] \<Rightarrow> lim - 1);
               d = DecodeRuneInString (drop start s)
           in if start + snd d \<noteq> length s then (RuneError, 1) else d)"

text \<open>
  The keys under which \<open>createSuffixTree\<close> files a suffix: its runes read from the end.
  Every pass consumes at least one byte, so the first argument, the length of the
  suffix, bounds the passes.
\<close>

fun suffixKeys :: "nat \<Rightarrow> string \<Rightarrow> string list" where
  "suffixKeys 0 s = []"
| "suffixKeys (Suc n) s =
     (if s = [] then []
      else EncodeRune (fst (DecodeLastRuneInString s))
             # suffixKeys n (take (length s - snd (DecodeLastRuneInString s)) s))"

definition createSuffixTree :: "string list \<Rightarrow> error + branch" where
  "createSuffixTree ss = insertAll (\<lambda>s. suffixKeys (length s) s) ss []"

text \<open>
  The end of \<open>NewArabicLightStemmer\<close>: both trees are built from the affix lists of
  the stemmer.
\<close>

definition initTrees :: "ArabicLightStemmer \<Rightarrow> error + ArabicLightStemmer" where
  "initTrees als =
     (case createPrefixTree (prefixList als) of
        Inl e \<Rightarrow> Inl e
      | Inr pt \<Rightarrow>
          (case createSuffixTree (suffixList als) of
             Inl e \<Rightarrow> Inl e
           | Inr st \<Rightarrow> Inr (als\<lparr>prefixesTree := pt, suffixesTree := st\<rparr>)))"

subsection \<open>Trie lookups\<close>

function lookupPrefixes_loop ::
  "string \<Rightarrow> rune list \<Rightarrow> branch \<Rightarrow> int list \<Rightarrow> nat \<Rightarrow> error + (branch \<times> int list \<times> nat)" where
  "lookupPrefixes_loop word runeWord b lefts i =
     (if i < length word then
        (if i < length runeWord then
           (case map_of b (EncodeRune (runeWord ! i)) of
              None \<Rightarrow> Inr (b, lefts, i)
            | Some Mark \<Rightarrow> Inl TypeAssertion
            | Some (Branch sub) \<Rightarrow>
                lookupPrefixes_loop word runeWord sub
                  (if hasHash b then lefts @ [int i] else lefts) (Suc i))
         else Inl IndexOutOfRange)
      else Inr (b, lefts, i))"
  by pat_completeness auto
termination
  by (relation "measure (\<lambda>(word, runeWord, b, lefts, i). length word - i)") auto

definition lookupPrefixes :: "ArabicLightStemmer \<Rightarrow> string \<Rightarrow> error + int list" where
  "lookupPrefixes als word =
     (case lookupPrefixes_loop word (runes word) (prefixesTree als) [0] 0 of
        Inl e \<Rightarrow> Inl e
      | Inr (b, lefts, i) \<Rightarrow>
          Inr (if i < length word \<and> hasHash b then lefts @ [int i] else lefts))"

text \<open>
  The loop of \<open>lookupSuffixes\<close> counts \<open>i\<close> down from \<open>len(runeWord) - 1\<close> while
  \<open>i >= 0\<close>; the counter here is \<open>i + 1\<close>.
\<close>

fun lookupSuffixes_loop ::
  "rune list \<Rightarrow> branch \<Rightarrow> int list \<Rightarrow> nat \<Rightarrow> error + (branch \<times> int list \<times> nat)" where
  "lookupSuffixes_loop runeWord b rights 0 = Inr (b, rights, 0)"
| "lookupSuffixes_loop runeWord b rights (Suc i) =
     (case map_of b (EncodeRune (runeWord ! i)) of
        None \<Rightarrow> Inr (b, rights, Suc i)
      | Some Mark \<Rightarrow> Inl TypeAssertion
      | Some (Branch sub) \<Rightarrow>
          lookupSuffixes_loop runeWord sub
            (if hasHash b then rights @ [int (Suc i)] else rights) i)"

definition lookupSuffixes :: "ArabicLightStemmer \<Rightarrow> string \<Rightarrow> error + int list" where
  "lookupSuffixes als word =
     (case lookupSuffixes_loop (runes word) (suffixesTree als) [] (length (runes word)) of
        Inl e \<Rightarrow> Inl e
      | Inr (b, rights, k) \<Rightarrow>
          Inr (if 0 < k \<and> hasHash b then rights @ [int k] else rights))"

subsection \<open>Segmentation\<close>

text \<open>
  \<open>getLeftRight\<close>: the largest key of the map and the smallest right boundary of its
  segments, both searched from the sentinel \<open>-1\<close>.
\<close>

definition getLeftRight :: "segmap \<Rightarrow> int \<times> int" where
  "getLeftRight ls =
     (if ls = [] then (-1, -1)
      else (foldl (\<lambda>maxLeft left. if left > maxLeft then left else maxLeft) (-1) (map fst ls),
            foldl (\<lambda>minRight right. if minRight = -1 \<or> right < minRight then right else minRight)
              (-1) (map snd (concat (map snd ls)))))"

text \<open>\<open>segmentList[i] = append(segmentList[i], segment)\<close>.\<close>

definition appendSegment :: "segmap \<Rightarrow> int \<Rightarrow> segment \<Rightarrow> segmap" where
  "appendSegment m k s =
     AList.update k ((case map_of m k of None \<Rightarrow> [] | Some ss \<Rightarrow> ss) @ [s]) m"

text \<open>
  The closure \<open>isSeen\<close> with its map \<open>seenSegments\<close>: whether the segment was already
  recorded under \<open>left\<close>, and the map after the call.
\<close>

definition isSeen :: "segmap \<Rightarrow> int \<Rightarrow> segment \<Rightarrow> bool \<times> segmap" where
  "isSeen seenSegments left seg =
     (let seen = (case map_of seenSegments left of None \<Rightarrow> [] | Some ss \<Rightarrow> ss)
      in if seg \<in> set seen then (True, AList.update left seen seenSegments)
         else (False, AList.update left (seen @ [seg]) seenSegments))"

definition addSegment :: "int \<Rightarrow> segmap \<times> segmap \<Rightarrow> int \<Rightarrow> segmap \<times> segmap" where
  "addSegment i st j =
     (if j \<ge> i + 2 then
        (case isSeen (snd st) i (i, j) of
           (True, seen') \<Rightarrow> (fst st, seen')
         | (False, seen') \<Rightarrow> (appendSegment (fst st) i (i, j), seen'))
      else st)"

definition addSegments :: "int list \<Rightarrow> int list \<Rightarrow> segmap \<times> segmap" where
  "addSegments lefts rights =
     foldl (\<lambda>st i. foldl (addSegment i) st rights) ([], []) lefts"

definition segment ::
  "ArabicLightStemmer \<Rightarrow> string \<Rightarrow> error + (segmap \<times> string \<times> int \<times> int)" where
  "segment als word =
     (let unvocalized = StripTashkeel als word;
          word' = ReplaceAll word ALEF_MADDA (HAMZA @ ALEF)
      in case lookupPrefixes als word' of
           Inl e \<Rightarrow> Inl e
         | Inr lefts \<Rightarrow>
             (case lookupSuffixes als word' of
                Inl e \<Rightarrow> Inl e
              | Inr rights \<Rightarrow>
                  (let segmentList = fst (addSegments lefts rights)
                   in Inr (segmentList, unvocalized, getLeftRight segmentList))))"

section \<open>Library functions the stemmer calls\<close>

definition andThen :: "error + 'a \<Rightarrow> ('a \<Rightarrow> error + 'b) \<Rightarrow> error + 'b" where
  "andThen m f = (case m of Inl e \<Rightarrow> Inl e | Inr x \<Rightarrow> f x)"

text \<open>\<open>strings.HasPrefix\<close>, \<open>strings.HasSuffix\<close>, \<open>strings.Contains\<close>, on bytes.\<close>

definition HasPrefix :: "string \<Rightarrow> string \<Rightarrow> bool" where
  "HasPrefix s p = (take (length p) s = p)"

definition HasSuffix :: "string \<Rightarrow> string \<Rightarrow> bool" where
  "HasSuffix s p = (length p \<le> length s \<and> drop (length s - length p) s = p)"

definition Contains :: "string \<Rightarrow> string \<Rightarrow> bool" where
  "Contains s sub = list_ex (\<lambda>i. take (length sub) (drop i s) = sub) [0..<Suc (length s)]"

text \<open>\<open>strings.ContainsAny\<close>: some rune of \<open>s\<close> is a rune of \<open>chars\<close>.\<close>

definition ContainsAny :: "string \<Rightarrow> string \<Rightarrow> bool" where
  "ContainsAny s chars = list_ex (\<lambda>c. c \<in> set (runes chars)) (runes s)"

text \<open>
  The regular expressions of the program are single character classes, built from the
  letters of the stemmer: \<open>regexp.MustCompile("[^" + letters + "]")\<close>. Inside the brackets
  the parser of \<open>regexp/syntax\<close> reads a rune, and, when a \<open>-\<close> and a further rune follow,
  a range; a range whose upper end is below its lower end, an empty class and a pattern that
  is not well-formed UTF-8 are syntax errors, on which \<open>MustCompile\<close> panics. A \<open>^\<close> after
  the opening one is an ordinary rune. The letters \<open>[\<close>, \<open>\\<close> and \<open>]\<close> start a named class,
  an escape or the rest of the pattern: such letters are outside of what is modelled, and
  the result is \<open>Unsupported\<close>, which stands for no statement about the code. A class is
  the list of its ranges.
\<close>

type_synonym charClass = "(rune \<times> rune) list"

definition inClass :: "charClass \<Rightarrow> rune \<Rightarrow> bool" where
  "inClass cls r = list_ex (\<lambda>(lo, hi). lo \<le> r \<and> r \<le> hi) cls"

fun parseClass :: "rune list \<Rightarrow> error + charClass" where
  "parseClass [] = Inr []"
| "parseClass [lo] = Inr [(lo, lo)]"
| "parseClass [lo, r] = Inr [(lo, lo), (r, r)]"
| "parseClass (lo # r # hi # rest) =
     (if r = 0x2D
      then (if hi < lo then Inl RegexpSyntax
            else (case parseClass rest of
                    Inl e \<Rightarrow> Inl e
                  | Inr cls \<Rightarrow> Inr ((lo, hi) # cls)))
      else (case parseClass (r # hi # rest) of
              Inl e \<Rightarrow> Inl e
            | Inr cls \<Rightarrow> Inr ((lo, lo) # cls)))"

definition validUTF8 :: "string \<Rightarrow> bool" where
  "validUTF8 s = list_all (\<lambda>(r, bs). \<not> (r = RuneError \<and> length bs = 1)) (chunks s)"

definition classNot :: "string \<Rightarrow> error + charClass" where
  "classNot letters =
     (if \<not> validUTF8 letters \<or> letters = [] then Inl RegexpSyntax
      else if list_ex (\<lambda>r. r = 0x5B \<or> r = 0x5C \<or> r = 0x5D) (runes letters)
      then Inl Unsupported
      else parseClass (runes letters))"

text \<open>
  \<open>ReplaceAllString\<close> reads the text rune by rune, an ill-formed byte as U+FFFD, and puts
  the replacement in the place of every rune that matches. A \<open>$\<close> in the replacement is
  expanded as a template, which is not modelled: with such a replacement and a match the
  result is \<open>Unsupported\<close>. The replacements written in the program hold no \<open>$\<close>.
\<close>

definition substitute :: "(rune \<Rightarrow> bool) \<Rightarrow> string \<Rightarrow> string \<Rightarrow> string" where
  "substitute matches repl s =
     concat (map (\<lambda>(r, bs). if matches r then repl else bs) (chunks s))"

definition ReplaceAllString :: "(rune \<Rightarrow> bool) \<Rightarrow> string \<Rightarrow> string \<Rightarrow> error + string" where
  "ReplaceAllString matches s repl =
     (if CHR ''$'' \<in> set repl \<and> list_ex matches (runes s) then Inl Unsupported
      else Inr (substitute matches repl s))"

definition replaceNotIn :: "charClass \<Rightarrow> string \<Rightarrow> string \<Rightarrow> error + string" where
  "replaceNotIn cls repl s = ReplaceAllString (\<lambda>r. \<not> inClass cls r) s repl"

definition replaceIn :: "rune list \<Rightarrow> string \<Rightarrow> string \<Rightarrow> error + string" where
  "replaceIn cls repl s = ReplaceAllString (\<lambda>r. r \<in> set cls) s repl"

subsection \<open>Verb stamps\<close>

definition normalizeHamza :: "string \<Rightarrow> string" where
  "normalizeHamza verb =
     substitute (\<lambda>r. r \<in> set [0x623, 0x625, 0x621, 0x624, 0x626, 0x622]) HAMZA verb"

definition removeWeakLetters :: "string \<Rightarrow> string" where
  "removeWeakLetters verb = substitute (\<lambda>r. r \<in> set [0x627, 0x648, 0x64A, 0x649]) [] verb"

definition removeDoubleLetterAtEnd :: "string \<Rightarrow> string" where
  "removeDoubleLetterAtEnd verb =
     (if length verb > 1 \<and> verb ! (length verb - 1) = verb ! (length verb - 2)
      then take (length verb - 1) verb else verb)"

definition Normalize :: "ArabicLightStemmer \<Rightarrow> string \<Rightarrow> string" where
  "Normalize als verb0 =
     (if verb0 = [] then []
      else let verb1 = StripTashkeel als verb0 in
        if verb1 = [] then []
        else let verb2 = (if length verb1 = 4 \<and> HasPrefix verb1 ALEF_HAMZA_ABOVE
                          then drop (length ALEF_HAMZA_ABOVE) verb1 else verb1)
             in removeDoubleLetterAtEnd (removeWeakLetters (normalizeHamza verb2)))"

definition IsVerbStamp :: "ArabicLightStemmer \<Rightarrow> string \<Rightarrow> bool" where
  "IsVerbStamp als stem = (Normalize als stem \<in> set (verbList als))"

text \<open>\<open>NewVerbListManager\<close>: the verb list is normalised when it is loaded.\<close>

definition initializeVerbList :: "ArabicLightStemmer \<Rightarrow> string list \<Rightarrow> string list" where
  "initializeVerbList als initialVerbList = map (Normalize als) initialVerbList"

section \<open>Star transform\<close>

text \<open>
  The lengths of the stemmer are of type \<open>int\<close>, taken with the 64 bits it has on a
  64-bit platform: a sum or a difference is computed modulo \<open>2^64\<close> and read as a signed
  number. The positions computed from the length of a word stay inside that range.
\<close>

definition goInt :: "int \<Rightarrow> int" where
  "goInt x = (x + 0x8000000000000000) mod 0x10000000000000000 - 0x8000000000000000"

text \<open>The first and the last position of the joker in a rune slice, \<open>-1\<close> when absent.\<close>

definition findJoker :: "rune \<Rightarrow> rune list \<Rightarrow> int \<times> int" where
  "findJoker jokerRune runeWord =
     foldl (\<lambda>(left, right) (i, c).
              if c = jokerRune then (if left = -1 then int i else left, int i)
              else (left, right))
       (-1, -1) (zip [0..<length runeWord] runeWord)"

text \<open>
  The two trimming loops of \<open>transform2Stars\<close>. Each pass drops one rune, so a loop
  over a string of \<open>n\<close> runes ends within \<open>n\<close> passes; the first argument is that bound.
\<close>

fun trimPrefix :: "nat \<Rightarrow> string list \<Rightarrow> string \<Rightarrow> error + string" where
  "trimPrefix 0 lst p = (if p \<noteq> [] \<and> p \<notin> set lst then Inl OutOfFuel else Inr p)"
| "trimPrefix (Suc n) lst p =
     (if p \<noteq> [] \<and> p \<notin> set lst then trimPrefix n lst (gostring (butlast (runes p)))
      else Inr p)"

fun trimSuffix :: "nat \<Rightarrow> string list \<Rightarrow> string \<Rightarrow> error + string" where
  "trimSuffix 0 lst p = (if p \<noteq> [] \<and> p \<notin> set lst then Inl OutOfFuel else Inr p)"
| "trimSuffix (Suc n) lst p =
     (if p \<noteq> [] \<and> p \<notin> set lst then trimSuffix n lst (gostring (tl (runes p)))
      else Inr p)"

definition maskInfix :: "ArabicLightStemmer \<Rightarrow> string \<Rightarrow> error + string" where
  "maskInfix als stem =
     (if infixLetters als \<noteq> []
      then andThen (classNot (infixLetters als)) (\<lambda>cls. replaceNotIn cls (joker als) stem)
      else Inr stem)"

text \<open>The first half of \<open>transform2Stars\<close>: the window around the jokers is masked.\<close>

definition maskWindow :: "ArabicLightStemmer \<Rightarrow> string \<Rightarrow> int \<Rightarrow> int \<Rightarrow> error + string" where
  "maskWindow als word left0 right0 =
     (let runeWord = runes word;
          left = min left0 (goInt (maxPrefixLength als - 1));
          right = max (right0 + 1) (goInt (int (length runeWord) - maxSuffixLength als))
      in andThen (slice runeWord 0 left) (\<lambda>prefixRunes.
         andThen (slice runeWord left right) (\<lambda>stemRunes.
         andThen (slice runeWord right (int (length runeWord))) (\<lambda>suffixRunes.
         andThen (classNot (prefixLetters als)) (\<lambda>prefixCls.
         andThen (replaceNotIn prefixCls (joker als) (gostring prefixRunes)) (\<lambda>prefix.
         andThen (maskInfix als (gostring stemRunes)) (\<lambda>stem.
         andThen (classNot (suffixLetters als)) (\<lambda>suffixCls.
         andThen (replaceNotIn suffixCls (joker als) (gostring suffixRunes)) (\<lambda>suffix.
           Inr (prefix @ stem @ suffix))))))))))"

text \<open>The second half: the affixes are trimmed to known ones and the stem is masked.\<close>

definition trimWindow ::
  "ArabicLightStemmer \<Rightarrow> string \<Rightarrow> int \<Rightarrow> int \<Rightarrow> error + (string \<times> int \<times> int)" where
  "trimWindow als word left0 right0 =
     (let runeWord = runes word in
      andThen (slice runeWord 0 left0) (\<lambda>prefixRunes.
      andThen (trimPrefix (length prefixRunes) (prefixList als) (gostring prefixRunes)) (\<lambda>prefix.
      let right1 = (if right0 < 0
                    then max (int (length (runes prefix)))
                           (goInt (int (length runeWord) - maxSuffixLength als))
                    else right0)
      in andThen (slice runeWord right1 (int (length runeWord))) (\<lambda>suffixRunes.
         andThen (trimSuffix (length suffixRunes) (suffixList als) (gostring suffixRunes)) (\<lambda>suffix.
         let left = int (length (runes prefix));
             right = int (length runeWord) - int (length (runes suffix))
         in andThen (slice runeWord left right) (\<lambda>stemRunes.
            andThen (maskInfix als (gostring stemRunes)) (\<lambda>stem.
              Inr (prefix @ stem @ suffix, left, right))))))))"

definition transform2Stars ::
  "ArabicLightStemmer \<Rightarrow> string \<Rightarrow> error + (string \<times> string \<times> int \<times> int)" where
  "transform2Stars als word0 =
     (let unvocalized = StripTashkeel als word0;
          word1 = ReplaceAll unvocalized ALEF_MADDA (ALEF_HAMZA_ABOVE @ ALEF)
      in andThen (classNot (prefixLetters als @ suffixLetters als)) (\<lambda>affixCls.
         andThen (replaceNotIn affixCls (joker als) word1) (\<lambda>word2.
         case runes (joker als) of
           [] \<Rightarrow> Inl IndexOutOfRange
         | jokerRune # _ \<Rightarrow>
             andThen (if fst (findJoker jokerRune (runes word2)) \<ge> 0
                      then maskWindow als word2 (fst (findJoker jokerRune (runes word2)))
                             (snd (findJoker jokerRune (runes word2)))
                      else Inr word2) (\<lambda>word3.
             let left0 = fst (findJoker jokerRune (runes word3));
                 right0 = snd (findJoker jokerRune (runes word3));
                 left1 = (if left0 < 0
                          then min (goInt (maxPrefixLength als)) (int (length (runes word3)) - 2)
                          else left0)
             in if left1 \<ge> 0
                then andThen (trimWindow als word3 left1 right0) (\<lambda>(word4, left, right).
                       Inr (word4, unvocalized, left, right))
                else Inr (word3, unvocalized, left1, right0)))))"

section \<open>Affix validation\<close>

definition getPrefix :: "string \<Rightarrow> int \<Rightarrow> int \<Rightarrow> string" where
  "getPrefix unvocalized left prefixIndex =
     (let unvocalizedRunes = runes unvocalized in
      if prefixIndex < 0 then
        (if left \<ge> 0 \<and> left \<le> int (length unvocalizedRunes)
         then gostring (take (nat left) unvocalizedRunes)
         else gostring unvocalizedRunes)
      else
        (if prefixIndex \<ge> 0 \<and> prefixIndex \<le> int (length unvocalizedRunes)
         then gostring (take (nat prefixIndex) unvocalizedRunes)
         else gostring unvocalizedRunes))"

definition getSuffix :: "string \<Rightarrow> int \<Rightarrow> int \<Rightarrow> string" where
  "getSuffix unvocalized right suffixIndex =
     (let unvocalizedRunes = runes unvocalized in
      if suffixIndex < 0 then
        (if right \<ge> 0 \<and> right \<le> int (length unvocalizedRunes)
         then gostring (drop (nat right) unvocalizedRunes)
         else [])
      else
        (if suffixIndex \<ge> 0 \<and> suffixIndex \<le> int (length unvocalizedRunes)
         then gostring (drop (nat suffixIndex) unvocalizedRunes)
         else []))"

definition validStem :: "ArabicLightStemmer \<Rightarrow> string \<Rightarrow> string \<Rightarrow> string \<Rightarrow> bool" where
  "validStem als stem tag prefix =
     (if stem = [] then False
      else let runeStem = runes stem;
               runePrefix = runes prefix;
               stemLength = length runeStem
      in if tag = ''verb'' then
           (if stemLength > 6 \<or> stemLength < 2 then False
            else if Contains stem TEH_MARBUTA then False
            else if stemLength = 6 \<and> \<not> HasPrefix stem ALEF then False
            else if stemLength = 5 \<and> \<not> HasPrefix stem ALEF \<and> \<not> HasPrefix stem TEH
                    \<and> (HasSuffix prefix YEH \<or> HasSuffix prefix TEH
                        \<or> HasSuffix prefix NOON \<or> HasSuffix prefix ALEF_HAMZA_ABOVE)
              then False
            else if HasPrefix stem ALEF \<and> length runePrefix > 0
                    \<and> ContainsAny (EncodeRune (runePrefix ! (length runePrefix - 1)))
                          (YEH @ NOON @ TEH @ ALEF_HAMZA_ABOVE @ ALEF)
              then False
            else if \<not> IsVerbStamp als stem then False
            else True)
         else if tag = ''noun'' then
           (if stemLength \<ge> 8 then False else True)
         else True)"

text \<open>\<open>utils.AffixInList\<close> and \<open>utils.Contains\<close> are list membership.\<close>

definition AffixInList :: "string \<Rightarrow> string list \<Rightarrow> bool" where
  "AffixInList affix lst = (affix \<in> set lst)"

text \<open>
  The loop of \<open>chooseStem\<close> over the segment map: every segment that \<open>verify\<close> accepts
  is appended to the valid segments under its left boundary.
\<close>

fun validSegments ::
  "(int \<Rightarrow> int \<Rightarrow> error + bool) \<Rightarrow> (int \<times> segment) list \<Rightarrow> segmap \<Rightarrow> error + segmap" where
  "validSegments verify [] validSegList = Inr validSegList"
| "validSegments verify ((leftIndex, seg) # rest) validSegList =
     (case verify leftIndex (snd seg) of
        Inl e \<Rightarrow> Inl e
      | Inr ok \<Rightarrow>
          validSegments verify rest
            (if ok then appendSegment validSegList leftIndex (leftIndex, snd seg)
             else validSegList))"

text \<open>The pairs (key, segment) of a segment map in the order of a \<open>range\<close> loop.\<close>

definition keyed :: "segmap \<Rightarrow> (int \<times> segment) list" where
  "keyed segList = concat (map (\<lambda>(leftIndex, segs). map (\<lambda>seg. (leftIndex, seg)) segs) segList)"

text \<open>
  \<open>getStem\<close>, \<open>chooseStem\<close> and \<open>verifyAffix\<close> call each other: \<open>getStem\<close> falls back
  to \<open>chooseStem\<close>, which verifies every segment, and \<open>verifyAffix\<close> asks \<open>getStem\<close>
  for the stem. Nothing in the program bounds this recursion, so the model counts the
  nested calls down from a fuel argument and answers \<open>OutOfFuel\<close> when it is used up.
\<close>

function getStem ::
    "nat \<Rightarrow> ArabicLightStemmer \<Rightarrow> string \<Rightarrow> string \<Rightarrow> int \<Rightarrow> int \<Rightarrow> int \<Rightarrow> int \<Rightarrow> int \<Rightarrow> int
       \<Rightarrow> segmap \<Rightarrow> error + string"
  and chooseStem ::
    "nat \<Rightarrow> ArabicLightStemmer \<Rightarrow> string \<Rightarrow> string \<Rightarrow> int \<Rightarrow> int \<Rightarrow> int \<Rightarrow> int
       \<Rightarrow> segmap \<Rightarrow> error + string"
  and verifyAffix ::
    "nat \<Rightarrow> ArabicLightStemmer \<Rightarrow> string \<Rightarrow> string \<Rightarrow> int \<Rightarrow> int \<Rightarrow> int \<Rightarrow> int \<Rightarrow> int \<Rightarrow> int
       \<Rightarrow> segmap \<Rightarrow> error + bool"
where
  "getStem 0 als word unvocalized left right stemLeft stemRight prefixIndex suffixIndex
     segmentList = Inl OutOfFuel"
| "getStem (Suc fuel) als word unvocalized left right stemLeft stemRight prefixIndex suffixIndex
     segmentList =
     (if prefixIndex \<ge> 0 \<or> suffixIndex \<ge> 0 then
        (let left1 = (if prefixIndex < 0 then stemLeft else prefixIndex);
             right1 = (if suffixIndex < 0 then stemRight else suffixIndex);
             unvocalizedRunes = runes unvocalized;
             left2 = (if left1 < 0 then 0 else left1);
             right2 = (if right1 > int (length unvocalizedRunes)
                       then int (length unvocalizedRunes) else right1)
         in if left2 \<le> right2 \<and> left2 < int (length unvocalizedRunes)
            then andThen (slice unvocalizedRunes left2 right2) (\<lambda>rs. Inr (gostring rs))
            else chooseStem fuel als word unvocalized left2 right2 stemLeft stemRight segmentList)
      else chooseStem fuel als word unvocalized left right stemLeft stemRight segmentList)"
| "chooseStem 0 als word unvocalized left right stemLeft stemRight segmentList = Inl OutOfFuel"
| "chooseStem (Suc fuel) als word unvocalized left right stemLeft stemRight segmentList =
     (if IsStopword als word then Inr (StopStem als word)
      else
        andThen (if segmentList = [] then andThen (segment als word) (\<lambda>_. Inr ()) else Inr ())
          (\<lambda>_.
        andThen (validSegments
                   (\<lambda>leftIndex rightIndex.
                      verifyAffix fuel als word unvocalized left right stemLeft stemRight
                        leftIndex rightIndex segmentList)
                   (keyed segmentList) []) (\<lambda>validSegList.
        let runeWord = runes word;
            runeUnvocalized = runes unvocalized;
            lr = (if validSegList = [] then (0, int (length runeWord))
                  else getLeftRight validSegList);
            left1 = (if fst lr < 0 then 0 else fst lr);
            right1 = (if snd lr > int (length runeUnvocalized)
                      then int (length runeUnvocalized) else snd lr)
        in andThen (slice runeUnvocalized left1 right1) (\<lambda>rs. Inr (gostring rs)))))"
| "verifyAffix 0 als word unvocalized left right stemLeft stemRight prefixIndex suffixIndex
     segmentList = Inl OutOfFuel"
| "verifyAffix (Suc fuel) als word unvocalized left right stemLeft stemRight prefixIndex
     suffixIndex segmentList =
     (let prefix = getPrefix unvocalized left prefixIndex;
          suffix = getSuffix unvocalized right suffixIndex;
          affix = prefix @ ''-'' @ suffix
      in andThen (getStem fuel als word unvocalized left right stemLeft stemRight prefixIndex
                    suffixIndex segmentList) (\<lambda>stem.
           if AffixInList affix (VERB_AFFIX_LIST als) \<and> validStem als stem ''verb'' prefix
           then Inr True
           else if AffixInList affix (NOUN_AFFIX_LIST als) \<and> validStem als stem ''noun'' prefix
           then Inr True
           else Inr False))"
  by pat_completeness auto
termination
  by (relation "measure (\<lambda>x. case x of Inl a \<Rightarrow> fst a | Inr (Inl b) \<Rightarrow> fst b
                                   | Inr (Inr c) \<Rightarrow> fst c)") auto

section \<open>The entry point\<close>

definition LightStem :: "nat \<Rightarrow> ArabicLightStemmer \<Rightarrow> string \<Rightarrow> error + string" where
  "LightStem fuel als word =
     (if word = [] then Inr []
      else andThen (transform2Stars als word) (\<lambda>(starword, unvocalized0, stemLeft, stemRight).
           andThen (segment als word) (\<lambda>(segmentList, unvocalized, left, right).
             getStem fuel als word unvocalized left right stemLeft stemRight (-1) (-1)
               segmentList)))"

section \<open>Root extraction\<close>

text \<open>\<open>utils.NormalizeHamza\<close> and \<open>normalizeRoot\<close>.\<close>

definition NormalizeHamza :: "string \<Rightarrow> string" where
  "NormalizeHamza text0 =
     substitute (\<lambda>r. r \<in> set (runes (WAW_HAMZA @ YEH_HAMZA))) (EncodeRune 0x621)
       (substitute
          (\<lambda>r. r \<in> set (runes (ALEF_MADDA @ ALEF_HAMZA_ABOVE @ ALEF_HAMZA_BELOW
                                     @ HAMZA_ABOVE @ HAMZA_BELOW)))
          ALEF text0)"

definition normalizeRoot :: "string \<Rightarrow> string" where
  "normalizeRoot word =
     NormalizeHamza
       (ReplaceAll (ReplaceAll (ReplaceAll word ALEF_MADDA (HAMZA @ ALEF)) TEH_MARBUTA [])
          ALEF_MAKSURA YEH)"

text \<open>\<open>string(s[i])\<close>: the byte at position \<open>i\<close> read as a code point and encoded.\<close>

definition byteString :: "string \<Rightarrow> int \<Rightarrow> error + string" where
  "byteString s i =
     (if 0 \<le> i \<and> i < int (length s) then Inr (EncodeRune (byte (s ! nat i)))
      else Inl IndexOutOfRange)"

definition handleTehInfix ::
  "ArabicLightStemmer \<Rightarrow> string \<Rightarrow> string \<Rightarrow> int \<Rightarrow> int \<Rightarrow> error + string" where
  "handleTehInfix als word starword left right =
     (let keyStem = ReplaceAll starword TEH_MARBUTA [] in
      if length keyStem \<noteq> 4
      then replaceIn (runes (TEH @ TAH @ DAL)) (joker als) starword
      else
        andThen (slice starword 0 2) (\<lambda>head1.
        andThen (slice starword 2 (int (length starword))) (\<lambda>tail1.
        let star1 = head1 @ ReplaceAll tail1 TEH (joker als) in
        andThen (slice word left right) (\<lambda>stem1.
        andThen (if HasPrefix stem1 (gostring [0x636, 0x637])
                 then andThen (slice star1 0 2) (\<lambda>h.
                      andThen (slice star1 2 (int (length star1))) (\<lambda>t.
                        Inr (h @ ReplaceAll t TAH (joker als))))
                 else Inr (ReplaceAll star1 TAH (joker als))) (\<lambda>star2.
        andThen (slice word left right) (\<lambda>stem2.
          if HasPrefix stem2 (gostring [0x632, 0x62F])
          then andThen (slice star2 0 2) (\<lambda>h.
               andThen (slice star2 2 (int (length star2))) (\<lambda>t.
                 Inr (h @ ReplaceAll t DAL (joker als))))
          else Inr (ReplaceAll star2 DAL (joker als))))))))"

definition getStarStem ::
  "ArabicLightStemmer \<Rightarrow> string \<Rightarrow> int \<Rightarrow> int \<Rightarrow> int \<Rightarrow> int \<Rightarrow> error + string" where
  "getStarStem als word left right prefixIndex suffixIndex =
     (let tempLeft = (if prefixIndex < 0 \<and> suffixIndex < 0 then left
                      else if prefixIndex \<ge> 0 then prefixIndex else left);
          tempRight = (if prefixIndex < 0 \<and> suffixIndex < 0 then right
                       else if suffixIndex \<ge> 0 then suffixIndex else right)
      in if infixLetters als \<noteq> [] then
           andThen (classNot (infixLetters als @ TEH_MARBUTA)) (\<lambda>cls.
           andThen (slice word tempLeft tempRight) (\<lambda>window.
           andThen (replaceNotIn cls (joker als) window) (\<lambda>newStarstem.
             handleTehInfix als word newStarstem tempLeft tempRight)))
         else
           andThen (slice word tempLeft tempRight) (\<lambda>window.
             Inr (concat (replicate (length window) (joker als)))))"

definition ajustRoot :: "ArabicLightStemmer \<Rightarrow> string \<Rightarrow> string \<Rightarrow> error + string" where
  "ajustRoot als root starstem =
     (if starstem = [] then Inr root
      else if length starstem = 3
        then Inr (ReplaceAll (ReplaceAll starstem ALEF WAW) ALEF_MAKSURA YEH)
      else
        andThen (byteString starstem 0) (\<lambda>first.
        andThen (byteString starstem (int (length starstem) - 1)) (\<lambda>last.
          if first = ALEF \<or> first = WAW then Inr (WAW @ root)
          else if first = YEH then Inr (YEH @ root)
          else if first = joker als \<and> (last = ALEF \<or> last = WAW) then Inr (root @ WAW)
          else if first = joker als \<and> (last = ALEF_MAKSURA \<or> last = YEH) then Inr (root @ WAW)
          else if first = joker als \<and> last = joker als then
            (if length starstem = 2
             then andThen (byteString root (int (length root) - 1)) (\<lambda>c. Inr (root @ c))
             else andThen (byteString root 0) (\<lambda>c0.
                  andThen (byteString root 1) (\<lambda>c1. Inr (c0 @ WAW @ c1))))
          else Inr root)))"

text \<open>
  The masking loop of \<open>extractRoot\<close>: \<open>for i, char := range stem\<close> visits the runes of
  the stem with their byte offsets and keeps a rune when the byte of the starred stem
  at that offset is the joker.
\<close>

fun maskedRunes :: "string \<Rightarrow> string \<Rightarrow> nat \<Rightarrow> (rune \<times> string) list \<Rightarrow> error + string" where
  "maskedRunes jk starStem i [] = Inr []"
| "maskedRunes jk starStem i ((char, bs) # rest) =
     andThen (byteString starStem (int i)) (\<lambda>c.
     andThen (maskedRunes jk starStem (i + length bs) rest) (\<lambda>more.
       Inr ((if c = jk then EncodeRune char else []) @ more)))"

definition extractRoot ::
  "nat \<Rightarrow> ArabicLightStemmer \<Rightarrow> string \<Rightarrow> string \<Rightarrow> string \<Rightarrow> int \<Rightarrow> int \<Rightarrow> int \<Rightarrow> int
     \<Rightarrow> int \<Rightarrow> int \<Rightarrow> segmap \<Rightarrow> error + string" where
  "extractRoot fuel als word unvocalized root left right stemLeft stemRight prefixIndex
     suffixIndex segmentList =
     andThen (getStem fuel als word unvocalized left right stemLeft stemRight prefixIndex
                suffixIndex segmentList) (\<lambda>stem.
       if length stem = 3 then ajustRoot als root stem
       else
         andThen (getStarStem als word left right prefixIndex suffixIndex) (\<lambda>starStem.
         andThen (if length starStem = length stem
                  then maskedRunes (joker als) starStem 0 (chunks stem)
                  else Inr stem) (\<lambda>root1.
           if length (normalizeRoot root1) = 2
           then ajustRoot als (normalizeRoot root1) starStem
           else Inr (normalizeRoot root1))))"

section \<open>Choosing the root\<close>

definition isRootLengthValid :: "string \<Rightarrow> bool" where
  "isRootLengthValid root = (length root \<ge> 2 \<and> length root \<le> 4)"

definition IsRoot :: "ArabicLightStemmer \<Rightarrow> string \<Rightarrow> bool" where
  "IsRoot als word = (word \<in> set (roots als))"

text \<open>\<open>sort.Strings\<close>: ascending in the order of Go strings, byte by byte.\<close>

fun stringLess :: "string \<Rightarrow> string \<Rightarrow> bool" where
  "stringLess [] [] = False"
| "stringLess [] (y # ys) = True"
| "stringLess (x # xs) [] = False"
| "stringLess (x # xs) (y # ys) = (byte x < byte y \<or> (x = y \<and> stringLess xs ys))"

fun insertString :: "string \<Rightarrow> string list \<Rightarrow> string list" where
  "insertString s [] = [s]"
| "insertString s (t # ts) = (if stringLess t s then t # insertString s ts else s # t # ts)"

definition sortStrings :: "string list \<Rightarrow> string list" where
  "sortStrings lst = foldr insertString lst []"

definition mostCommon :: "string list \<Rightarrow> string" where
  "mostCommon lst0 =
     (let triRoots = filter (\<lambda>item. length item = 3) lst0;
          lst = (if triRoots \<noteq> [] then triRoots else lst0)
      in fst (foldl (\<lambda>(best, maxCount) item.
                      if count_list lst item > maxCount then (item, count_list lst item)
                      else (best, maxCount))
                ([], 0) (sortStrings lst)))"

text \<open>
  The end of \<open>chooseRoot\<close>: the candidates are filtered by length, then by the
  dictionary, each filter being dropped when it leaves nothing, and the most common
  survivor is returned.
\<close>

definition selectRoot :: "ArabicLightStemmer \<Rightarrow> string list \<Rightarrow> string" where
  "selectRoot als roots0 =
     (let accepted1 = filter isRootLengthValid roots0;
          roots1 = (if accepted1 \<noteq> [] then accepted1 else roots0);
          accepted2 = filter (IsRoot als) roots1;
          roots2 = (if accepted2 \<noteq> [] then accepted2 else roots1)
      in mostCommon roots2)"

text \<open>Running a fallible function over a list, in order, up to the first panic.\<close>

fun forEach :: "('a \<Rightarrow> error + 'b) \<Rightarrow> 'a list \<Rightarrow> error + 'b list" where
  "forEach f [] = Inr []"
| "forEach f (x # xs) =
     (case f x of
        Inl e \<Rightarrow> Inl e
      | Inr y \<Rightarrow> (case forEach f xs of Inl e \<Rightarrow> Inl e | Inr ys \<Rightarrow> Inr (y # ys)))"

text \<open>An affix tuple: the map with the keys prefix, suffix, stem, starstem and root.\<close>

record affixTuple =
  prefixOf :: string
  suffixOf :: string
  stemOf :: string
  starstemOf :: string
  rootOf :: string

text \<open>
  \<open>chooseRoot\<close> asks \<open>getAffixList\<close> for one tuple per segment, \<open>getAffixTuple\<close> asks
  \<open>getRoot\<close> for its root, and \<open>getRoot\<close> calls \<open>chooseRoot\<close> again when neither index
  is given. As for the stem, the nested calls are counted down from a fuel argument.
\<close>

function getAffixList ::
    "nat \<Rightarrow> ArabicLightStemmer \<Rightarrow> string \<Rightarrow> string \<Rightarrow> string \<Rightarrow> int \<Rightarrow> int \<Rightarrow> int \<Rightarrow> int
       \<Rightarrow> segmap \<Rightarrow> error + affixTuple list"
  and getAffixTuple ::
    "nat \<Rightarrow> ArabicLightStemmer \<Rightarrow> string \<Rightarrow> string \<Rightarrow> string \<Rightarrow> int \<Rightarrow> int \<Rightarrow> int \<Rightarrow> int
       \<Rightarrow> int \<Rightarrow> int \<Rightarrow> segmap \<Rightarrow> error + affixTuple"
  and getRoot ::
    "nat \<Rightarrow> ArabicLightStemmer \<Rightarrow> string \<Rightarrow> string \<Rightarrow> string \<Rightarrow> int \<Rightarrow> int \<Rightarrow> int \<Rightarrow> int
       \<Rightarrow> int \<Rightarrow> int \<Rightarrow> segmap \<Rightarrow> error + string"
  and chooseRoot ::
    "nat \<Rightarrow> ArabicLightStemmer \<Rightarrow> string \<Rightarrow> string \<Rightarrow> string \<Rightarrow> int \<Rightarrow> int \<Rightarrow> int \<Rightarrow> int
       \<Rightarrow> segmap \<Rightarrow> error + string"
where
  "getAffixList 0 als word unvocalized root stemLeft stemRight prefixIndex suffixIndex
     segmentList = Inl OutOfFuel"
| "getAffixList (Suc fuel) als word unvocalized root stemLeft stemRight prefixIndex suffixIndex
     segmentList =
     forEach (\<lambda>(leftIndex, pair).
                getAffixTuple fuel als word unvocalized root leftIndex (snd pair) stemLeft
                  stemRight prefixIndex suffixIndex segmentList)
       (keyed segmentList)"
| "getAffixTuple 0 als word unvocalized root left right stemLeft stemRight prefixIndex
     suffixIndex segmentList = Inl OutOfFuel"
| "getAffixTuple (Suc fuel) als word unvocalized root left right stemLeft stemRight prefixIndex
     suffixIndex segmentList =
     andThen (getStem fuel als word unvocalized left right stemLeft stemRight prefixIndex
                suffixIndex segmentList) (\<lambda>stem.
     andThen (getStarStem als word left right prefixIndex suffixIndex) (\<lambda>starstem.
     andThen (getRoot fuel als word unvocalized root left right stemLeft stemRight prefixIndex
                suffixIndex segmentList) (\<lambda>root'.
       Inr \<lparr>prefixOf = getPrefix unvocalized left prefixIndex,
            suffixOf = getSuffix unvocalized right suffixIndex,
            stemOf = stem, starstemOf = starstem, rootOf = root'\<rparr>)))"
| "getRoot 0 als word unvocalized root left right stemLeft stemRight prefixIndex suffixIndex
     segmentList = Inl OutOfFuel"
| "getRoot (Suc fuel) als word unvocalized root left right stemLeft stemRight prefixIndex
     suffixIndex segmentList =
     (if prefixIndex \<ge> 0 \<or> suffixIndex \<ge> 0
      then andThen (extractRoot fuel als word unvocalized root left right stemLeft stemRight
                      prefixIndex suffixIndex segmentList) (\<lambda>_. Inr root)
      else chooseRoot fuel als word unvocalized root stemLeft stemRight prefixIndex suffixIndex
             segmentList)"
| "chooseRoot 0 als word unvocalized root stemLeft stemRight prefixIndex suffixIndex
     segmentList = Inl OutOfFuel"
| "chooseRoot (Suc fuel) als word unvocalized root stemLeft stemRight prefixIndex suffixIndex
     segmentList =
     (if IsStopword als word then Inr (StopRoot als word)
      else
        andThen (if segmentList = [] then andThen (segment als word) (\<lambda>_. Inr ()) else Inr ())
          (\<lambda>_.
        andThen (getAffixList fuel als word unvocalized root stemLeft stemRight prefixIndex
                   suffixIndex segmentList) (\<lambda>affixList.
          Inr (selectRoot als (map rootOf affixList)))))"
  by pat_completeness auto
termination
  by (relation "measure (\<lambda>x. case x of
        Inl (Inl a) \<Rightarrow> fst a | Inl (Inr b) \<Rightarrow> fst b
      | Inr (Inl c) \<Rightarrow> fst c | Inr (Inr d) \<Rightarrow> fst d)") auto

section \<open>Notions used in the statements\<close>

text \<open>The rune that \<open>string(r)\<close> writes: \<open>r\<close> itself, or U+FFFD when it has no encoding.\<close>

definition sanitize :: "rune \<Rightarrow> rune" where
  "sanitize r = (if (0xD800 \<le> r \<and> r \<le> 0xDFFF) \<or> 0x10FFFF < r then RuneError else r)"

subsection \<open>Segment maps\<close>

text \<open>All segments of a segment map, and the maps the segmenter builds.\<close>

definition segments_of :: "segmap \<Rightarrow> segment list" where
  "segments_of ls = concat (map snd ls)"

text \<open>
  A segment map is well formed when every key holds at least one segment, every segment
  is filed under its own left boundary, and the boundaries are offsets into the word,
  that is, not negative.
\<close>

definition wellformed :: "segmap \<Rightarrow> bool" where
  "wellformed ls =
     (\<forall>(k, ss) \<in> set ls. ss \<noteq> [] \<and> (\<forall>(l, r) \<in> set ss. l = k \<and> 0 \<le> l \<and> 0 \<le> r))"

definition seenUnder :: "segmap \<Rightarrow> int \<Rightarrow> segment list" where
  "seenUnder seen k = (case map_of seen k of None \<Rightarrow> [] | Some ss \<Rightarrow> ss)"

text \<open>The invariant of the segmenter's double loop over its two maps.\<close>

definition seg_inv :: "segmap \<times> segmap \<Rightarrow> bool" where
  "seg_inv st =
     (distinct (map fst (fst st)) \<and>
      (\<forall>k ss. map_of (fst st) k = Some ss \<longrightarrow>
         ss \<noteq> [] \<and> distinct ss \<and> set ss \<subseteq> set (seenUnder (snd st) k) \<and>
         (\<forall>s \<in> set ss. fst s = k \<and> 0 \<le> k \<and> k + 2 \<le> snd s)))"

subsection \<open>Candidate roots\<close>

text \<open>
  The candidate roots of a call of \<open>chooseRoot\<close>: the list \<open>roots\<close> that the call
  collects from the affix list. A call on a stopword returns before it builds the list,
  and a call in which \<open>getAffixList\<close> does not return has none.
\<close>

fun candidateRoots ::
    "nat \<Rightarrow> ArabicLightStemmer \<Rightarrow> string \<Rightarrow> string \<Rightarrow> string \<Rightarrow> int \<Rightarrow> int \<Rightarrow> int \<Rightarrow> int
       \<Rightarrow> segmap \<Rightarrow> string list option" where
  "candidateRoots 0 als word unvocalized root stemLeft stemRight prefixIndex suffixIndex
     segmentList = None"
| "candidateRoots (Suc fuel) als word unvocalized root stemLeft stemRight prefixIndex suffixIndex
     segmentList =
     (if IsStopword als word then None
      else case getAffixList fuel als word unvocalized root stemLeft stemRight prefixIndex
                  suffixIndex segmentList of
             Inl e \<Rightarrow> None
           | Inr affixList \<Rightarrow> Some (map rootOf affixList))"

section \<open>A small stemmer\<close>

text \<open>
  A stemmer with three prefixes, two suffixes (one of them empty), one verb stamp and
  three stopwords, used to run the model on concrete words. The words are written as
  rune lists: \<open>kaa\<close> is Kaf followed by two Teh Marbuta, \<open>al\<close> is the article Alef-Lam, \<open>ktb\<close> the root Kaf-Teh-Beh, \<open>katib\<close>
  Kaf-Alef-Teh-Beh, \<open>yaktubun\<close> Yeh-Kaf-Teh-Beh-Waw-Noon.
\<close>

definition al :: string where "al = gostring [0x627, 0x644]"
definition beh :: string where "beh = gostring [0x628]"
definition yeh :: string where "yeh = gostring [0x64A]"
definition wn :: string where "wn = gostring [0x648, 0x646]"
definition fy :: string where "fy = gostring [0x641, 0x64A]"
definition ktb :: string where "ktb = gostring [0x643, 0x62A, 0x628]"
definition katib :: string where "katib = gostring [0x643, 0x627, 0x62A, 0x628]"
definition alkatib :: string where "alkatib = gostring [0x627, 0x644, 0x643, 0x627, 0x62A, 0x628]"
definition bwn :: string where "bwn = gostring [0x628, 0x648, 0x646]"
definition hadha :: string where "hadha = gostring [0x647, 0x630, 0x627]"
definition bihadha :: string where "bihadha = gostring [0x628, 0x647, 0x630, 0x627]"
definition kaf :: string where "kaf = gostring [0x643]"
definition kaa :: string where "kaa = gostring [0x643, 0x629, 0x629]"
definition yaktubun :: string where
  "yaktubun = gostring [0x64A, 0x643, 0x62A, 0x628, 0x648, 0x646]"

definition exampleTables :: ArabicLightStemmer where
  "exampleTables =
     \<lparr>stopwords = [(fy, [(''stem'', fy)]), (beh, [(''stem'', beh)]),
                   (bihadha, [(''stem'', hadha)])],
      IsLetter = (\<lambda>r. (0x41 \<le> r \<and> r \<le> 0x5A) \<or> (0x61 \<le> r \<and> r \<le> 0x7A)
                       \<or> (0x621 \<le> r \<and> r \<le> 0x64A)),
      TASHKEEL = [0x64B, 0x64C, 0x64D, 0x64E, 0x64F, 0x650, 0x651, 0x652],
      verbList = [ktb],
      roots = [ktb],
      VERB_AFFIX_LIST = [yeh @ ''-'' @ wn],
      NOUN_AFFIX_LIST = [al @ ''-'', ''-''],
      prefixLetters = gostring [0x627, 0x644, 0x628, 0x64A],
      suffixLetters = gostring [0x648, 0x646],
      infixLetters = gostring [0x627, 0x62A, 0x648],
      maxPrefixLength = 4,
      maxSuffixLength = 6,
      minStemLength = 2,
      joker = ''*'',
      prefixList = [al, beh, yeh],
      suffixList = [[], wn],
      prefixesTree = [],
      suffixesTree = []\<rparr>"

text \<open>The stemmer with the two trees that \<open>initTrees\<close> builds from these tables.\<close>

definition exampleStemmer :: ArabicLightStemmer where
  "exampleStemmer =
     exampleTables
       \<lparr>prefixesTree :=
          [(EncodeRune 0x627,
             Branch [(EncodeRune 0x644, Branch [(''#'', Branch [(al, Mark)])])]),
           (EncodeRune 0x628, Branch [(''#'', Branch [(beh, Mark)])]),
           (EncodeRune 0x64A, Branch [(''#'', Branch [(yeh, Mark)])])],
        suffixesTree :=
          [(''#'', Branch [([], Mark)]),
           (EncodeRune 0x646,
             Branch [(EncodeRune 0x648, Branch [(''#'', Branch [(wn, Mark)])])])]\<rparr>"

text \<open>The same stemmer without the noun affix pair of the bare word.\<close>

definition strictStemmer :: ArabicLightStemmer where
  "strictStemmer = exampleStemmer\<lparr>NOUN_AFFIX_LIST := [al @ ''-'']\<rparr>"

section \<open>The verb rules in the words of the specification\<close>

text \<open>
  The rules of section 4.4 of the specification for a verb stem, stated on the letters of
  the stem and of the prefix: the length is between 2 and 6; no Teh Marbuta; a stem of
  six letters starts with Alef; a stem of five letters that starts with neither Alef nor
  Teh is rejected after a prefix ending in Yeh, Teh, Noon or Alef with Hamza above; a stem
  starting with Alef is rejected when the last letter of the prefix is Yeh, Noon, Teh,
  Alef with Hamza above or Alef; and the stem matches a verb stamp.
\<close>

definition verbStemAccepted :: "ArabicLightStemmer \<Rightarrow> string \<Rightarrow> string \<Rightarrow> bool" where
  "verbStemAccepted als stem prefix =
     (2 \<le> length (runes stem) \<and> length (runes stem) \<le> 6 \<and>
      \<not> Contains stem TEH_MARBUTA \<and>
      (length (runes stem) = 6 \<longrightarrow> HasPrefix stem ALEF) \<and>
      \<not> (length (runes stem) = 5 \<and> \<not> HasPrefix stem ALEF \<and> \<not> HasPrefix stem TEH \<and>
           (HasSuffix prefix YEH \<or> HasSuffix prefix TEH \<or> HasSuffix prefix NOON
            \<or> HasSuffix prefix ALEF_HAMZA_ABOVE)) \<and>
      \<not> (HasPrefix stem ALEF \<and> runes prefix \<noteq> [] \<and>
           last (runes prefix) \<in> {0x64A, 0x646, 0x62A, 0x623, 0x627}) \<and>
      IsVerbStamp als stem)"


section \<open>Running the model\<close>

text \<open>
  Concrete runs are computed by rewriting. The rules below make the simplifier evaluate
  the argument of a \<open>case\<close>, a \<open>let\<close> or a sequencing step before it looks at what
  follows, as a call-by-value machine does.
\<close>

lemma andThen_cong_weak: "m = m' \<Longrightarrow> andThen m f = andThen m' f"
  by simp

lemma validSegments_cong_weak:
  "segs = segs' \<Longrightarrow> acc = acc' \<Longrightarrow>
     validSegments verify segs acc = validSegments verify segs' acc'"
  by simp

lemma forEach_cong_weak: "xs = xs' \<Longrightarrow> forEach f xs = forEach f xs'"
  by simp

lemma andThen_Inr: "andThen (Inr x) f = f x"
  by (simp add: andThen_def)

lemma andThen_Inl: "andThen (Inl e) f = Inl e"
  by (simp add: andThen_def)

lemmas cbv = let_weak_cong option.case_cong_weak list.case_cong_weak sum.case_cong_weak
  prod.case_cong_weak tree.case_cong_weak andThen_cong_weak validSegments_cong_weak
  forEach_cong_weak

lemmas codec = gostring_def EncodeRune_def char_of_def bit_Suc_0_iff bit_0 runes_def byte_def
  cont_def second_lo_def second_hi_def RuneError_def DecodeLastRuneInString_def

lemmas letters = HAMZA_def ALEF_MADDA_def ALEF_HAMZA_ABOVE_def WAW_HAMZA_def
  ALEF_HAMZA_BELOW_def YEH_HAMZA_def ALEF_def TEH_MARBUTA_def TEH_def DAL_def TAH_def NOON_def
  WAW_def ALEF_MAKSURA_def YEH_def HAMZA_ABOVE_def HAMZA_BELOW_def

lemmas stem_defs = slice_def IsTashkeel_def IsAlpha_def IsVocalized_def StripTashkeel_def
  IsStopword_def StopStem_def StopRoot_def hasHash_def createPrefixTree_def createSuffixTree_def
  initTrees_def lookupPrefixes_def lookupSuffixes_def getLeftRight_def appendSegment_def
  isSeen_def addSegment_def addSegments_def segment_def andThen_Inr andThen_Inl HasPrefix_def
  HasSuffix_def Contains_def ContainsAny_def classNot_def validUTF8_def inClass_def
  substitute_def ReplaceAllString_def replaceNotIn_def replaceIn_def goInt_def
  normalizeHamza_def removeWeakLetters_def removeDoubleLetterAtEnd_def Normalize_def
  IsVerbStamp_def findJoker_def maskInfix_def maskWindow_def trimWindow_def
  transform2Stars_def getPrefix_def getSuffix_def validStem_def AffixInList_def keyed_def
  LightStem_def NormalizeHamza_def normalizeRoot_def byteString_def handleTehInfix_def
  getStarStem_def ajustRoot_def extractRoot_def isRootLengthValid_def IsRoot_def
  sortStrings_def mostCommon_def selectRoot_def Let_def

lemmas words = al_def beh_def yeh_def wn_def fy_def ktb_def katib_def alkatib_def yaktubun_def
  bwn_def hadha_def bihadha_def kaa_def kaf_def

lemmas example = exampleStemmer_def exampleTables_def strictStemmer_def


section \<open>The codec\<close>

text \<open>
  Decoding what \<open>string(r)\<close> wrote gives the rune back, or U+FFFD when the rune has no
  encoding. So a rune slice keeps its length on the way through a string, and a stripped
  word has no more runes than the word it came from.
\<close>

lemma byte_char_of: "byte (char_of (n::nat)) = n mod 256"
  by (simp add: byte_def)

lemma DecodeRune_EncodeRune:
  "DecodeRuneInString (EncodeRune r @ s) = (sanitize r, length (EncodeRune r))"
proof -
  consider (a) "r < 0x80" | (b) "0x80 \<le> r" "r < 0x800"
    | (c) "0x800 \<le> r" "(0xD800 \<le> r \<and> r \<le> 0xDFFF) \<or> 0x10FFFF < r"
    | (d) "0x800 \<le> r" "r < 0x10000" "\<not> (0xD800 \<le> r \<and> r \<le> 0xDFFF)"
    | (e) "0x10000 \<le> r" "r \<le> 0x10FFFF"
    by linarith
  then show ?thesis
  proof cases
    case a
    then show ?thesis by (simp add: EncodeRune_def sanitize_def byte_char_of)
  next
    case b
    then have "r div 64 < 32" "2 \<le> r div 64" by auto
    with b show ?thesis
      by (simp add: EncodeRune_def sanitize_def byte_char_of cont_def Let_def)
  next
    case c
    then show ?thesis
      by (auto simp add: EncodeRune_def sanitize_def byte_char_of cont_def Let_def
            second_lo_def second_hi_def RuneError_def)
  next
    case d
    define q where "q = r div 4096"
    define m where "m = (r div 64) mod 64"
    define l where "l = r mod 64"
    have q: "q < 16" using d by (simp add: q_def)
    have m: "m < 64" and l: "l < 64" by (simp_all add: m_def l_def)
    have "r div 4096 = r div 64 div 64" by (simp add: div_mult2_eq)
    then have "q * 64 + m = r div 64" unfolding q_def m_def by simp
    moreover have "r div 64 * 64 + l = r" unfolding l_def by simp
    ultimately have r: "q * 4096 + m * 64 + l = r" by linarith
    have lo: "q = 0 \<Longrightarrow> 32 \<le> m" using d(1) r l by arith
    have hi: "q = 13 \<Longrightarrow> m \<le> 31" using d(3) d(2) r l m by arith
    have enc: "EncodeRune r = [char_of (224 + q), char_of (128 + m), char_of (128 + l)]"
      using d by (auto simp add: EncodeRune_def q_def m_def l_def)
    have b0: "(224 + q) mod 256 = 224 + q" using q by simp
    have b1: "(128 + m) mod 256 = 128 + m" using m by simp
    have b2: "(128 + l) mod 256 = 128 + l" using l by simp
    have dec: "DecodeRuneInString (char_of (224 + q) # char_of (128 + m) # char_of (128 + l) # s)
        = (q * 4096 + m * 64 + l, 3)"
      using q m l lo hi
      by (simp add: byte_char_of b0 b1 b2 cont_def Let_def second_lo_def second_hi_def)
    have "DecodeRuneInString (EncodeRune r @ s) = (r, 3)"
      unfolding enc using dec r by (simp del: DecodeRuneInString.simps)
    moreover have "sanitize r = r" using d by (auto simp: sanitize_def)
    moreover have "length (EncodeRune r) = 3" using enc by simp
    ultimately show ?thesis by simp
  next
    case e
    define p where "p = r div 262144"
    define q where "q = (r div 4096) mod 64"
    define m where "m = (r div 64) mod 64"
    define l where "l = r mod 64"
    have p: "p \<le> 4" using e by (simp add: p_def)
    have q: "q < 64" and m: "m < 64" and l: "l < 64" by (simp_all add: q_def m_def l_def)
    have "r div 4096 = r div 64 div 64" by (simp add: div_mult2_eq)
    then have "r div 4096 * 64 + m = r div 64" unfolding m_def by simp
    moreover have "r div 262144 = r div 4096 div 64" by (simp add: div_mult2_eq)
    then have "p * 64 + q = r div 4096" unfolding p_def q_def by simp
    moreover have "r div 64 * 64 + l = r" unfolding l_def by simp
    ultimately have r: "p * 262144 + q * 4096 + m * 64 + l = r" by linarith
    have lo: "p = 0 \<Longrightarrow> 16 \<le> q" using e(1) r m l by arith
    have hi: "p = 4 \<Longrightarrow> q \<le> 15" using e(2) r by arith
    have enc: "EncodeRune r =
        [char_of (240 + p), char_of (128 + q), char_of (128 + m), char_of (128 + l)]"
      using e by (auto simp add: EncodeRune_def p_def q_def m_def l_def)
    have b0: "(240 + p) mod 256 = 240 + p" using p by simp
    have b1: "(128 + q) mod 256 = 128 + q" using q by simp
    have b2: "(128 + m) mod 256 = 128 + m" using m by simp
    have b3: "(128 + l) mod 256 = 128 + l" using l by simp
    have dec: "DecodeRuneInString
          (char_of (240 + p) # char_of (128 + q) # char_of (128 + m) # char_of (128 + l) # s)
        = (p * 262144 + q * 4096 + m * 64 + l, 4)"
      using p q m l lo hi
      by (simp add: byte_char_of b0 b1 b2 b3 cont_def Let_def second_lo_def second_hi_def)
    have "DecodeRuneInString (EncodeRune r @ s) = (r, 4)"
      unfolding enc using dec r by (simp del: DecodeRuneInString.simps)
    moreover have "sanitize r = r" using e by (auto simp: sanitize_def)
    moreover have "length (EncodeRune r) = 4" using enc by simp
    ultimately show ?thesis by simp
  qed
qed

lemma EncodeRune_nonempty: "EncodeRune r \<noteq> []"
  by (simp add: EncodeRune_def)

lemma chunks_EncodeRune:
  "chunks (EncodeRune r @ s) = (sanitize r, EncodeRune r) # chunks s"
proof -
  obtain c cs where e: "EncodeRune r = c # cs" using EncodeRune_nonempty by (cases "EncodeRune r") auto
  have d: "DecodeRuneInString (c # cs @ s) = (sanitize r, Suc (length cs))"
    using DecodeRune_EncodeRune [of r s] e by simp
  show ?thesis unfolding e by (simp add: d Let_def del: DecodeRuneInString.simps)
qed

lemma runes_gostring: "runes (gostring rs) = map sanitize rs"
  by (induction rs) (simp_all add: runes_def gostring_def chunks_EncodeRune)

lemma length_runes_gostring: "length (runes (gostring rs)) = length rs"
  by (simp add: runes_gostring)

lemma EncodeRune_sanitize: "EncodeRune (sanitize r) = EncodeRune r"
  by (simp add: sanitize_def EncodeRune_def RuneError_def)

lemma gostring_runes_gostring: "gostring (runes (gostring rs)) = gostring rs"
proof -
  have "gostring (map sanitize rs) = gostring rs"
    by (simp add: gostring_def EncodeRune_sanitize comp_def)
  then show ?thesis by (simp add: runes_gostring)
qed

lemma length_runes_StripTashkeel:
  "length (runes (StripTashkeel als word)) \<le> length (runes word)"
  by (simp add: StripTashkeel_def length_runes_gostring)

lemma StripTashkeel_wellformed:
  "gostring (runes word) = word \<Longrightarrow>
     gostring (runes (StripTashkeel als word)) = StripTashkeel als word"
  by (auto simp add: StripTashkeel_def gostring_runes_gostring)


section \<open>Segmentation\<close>

subsection \<open>The loops of getLeftRight\<close>

lemma foldl_maxLeft:
  "foldl (\<lambda>maxLeft left. if left > maxLeft then left else maxLeft) (m::int) xs = Max (insert m (set xs))"
proof (induction xs arbitrary: m)
  case Nil
  then show ?case by simp
next
  case (Cons x xs)
  have "Max (insert (if x > m then x else m) (set xs)) = Max (insert m (insert x (set xs)))"
    by (cases "set xs = {}") (auto simp: max_def Max_insert)
  with Cons show ?case by simp
qed

lemma foldl_minRight_pos:
  assumes "\<forall>x \<in> set xs. 0 \<le> x" "0 \<le> m"
  shows "foldl (\<lambda>minRight right. if minRight = -1 \<or> right < minRight then right else minRight) (m::int) xs
           = Min (insert m (set xs))"
  using assms
proof (induction xs arbitrary: m)
  case Nil
  then show ?case by simp
next
  case (Cons x xs)
  have "Min (insert (if x < m then x else m) (set xs)) = Min (insert m (insert x (set xs)))"
    by (cases "set xs = {}") (auto simp: min_def Min_insert)
  moreover have "m \<noteq> -1" using Cons.prems by auto
  ultimately show ?case using Cons by simp
qed

lemma foldl_minRight:
  assumes "\<forall>x \<in> set xs. 0 \<le> x" "xs \<noteq> []"
  shows "foldl (\<lambda>minRight right. if minRight = -1 \<or> right < minRight then right else minRight) (-1::int) xs
           = Min (set xs)"
proof (cases xs)
  case Nil
  with assms show ?thesis by simp
next
  case (Cons x ys)
  then show ?thesis using assms foldl_minRight_pos [of ys x] by simp
qed

lemma wellformed_keys:
  assumes "wellformed ls"
  shows "fst ` set (segments_of ls) = fst ` set ls"
proof
  show "fst ` set (segments_of ls) \<subseteq> fst ` set ls"
  proof
    fix l assume "l \<in> fst ` set (segments_of ls)"
    then obtain r where "(l, r) \<in> set (segments_of ls)" by auto
    then obtain k ss where m: "(k, ss) \<in> set ls" and s: "(l, r) \<in> set ss"
      by (auto simp: segments_of_def)
    from assms m have "\<forall>(l, r) \<in> set ss. l = k" unfolding wellformed_def by blast
    with s have "l = k" by blast
    with m show "l \<in> fst ` set ls" by force
  qed
  show "fst ` set ls \<subseteq> fst ` set (segments_of ls)"
  proof
    fix k assume "k \<in> fst ` set ls"
    then obtain ss where m: "(k, ss) \<in> set ls" by auto
    with assms have ne: "ss \<noteq> []" and eq: "\<forall>(l, r) \<in> set ss. l = k"
      unfolding wellformed_def by blast+
    from ne obtain l r where s: "(l, r) \<in> set ss" by (cases ss) auto
    with eq have "l = k" by blast
    moreover from m s have "(l, r) \<in> set (segments_of ls)" by (force simp: segments_of_def)
    ultimately show "k \<in> fst ` set (segments_of ls)" by force
  qed
qed


subsection \<open>The invariant of the segmenter\<close>

lemma isSeen_seenUnder:
  "isSeen seen i s =
     (if s \<in> set (seenUnder seen i) then (True, AList.update i (seenUnder seen i) seen)
      else (False, AList.update i (seenUnder seen i @ [s]) seen))"
  by (simp only: isSeen_def seenUnder_def Let_def)

lemma seg_inv_addSegment:
  assumes "seg_inv st" and "0 \<le> i"
  shows "seg_inv (addSegment i st j)"
proof (cases "j \<ge> i + 2")
  case False
  then show ?thesis using assms by (simp add: addSegment_def)
next
  case True
  obtain m seen where st: "st = (m, seen)" by (cases st)
  show ?thesis
  proof (cases "(i, j) \<in> set (seenUnder seen i)")
    case seen: True
    then have "addSegment i st j = (m, AList.update i (seenUnder seen i) seen)"
      using True st by (simp add: addSegment_def isSeen_seenUnder)
    moreover have "seenUnder (AList.update i (seenUnder seen i) seen) k = seenUnder seen k" for k
      by (simp add: seenUnder_def update_conv')
    ultimately show ?thesis using assms(1) st
      by (simp add: seg_inv_def del: map_of_eq_Some_iff)
  next
    case new: False
    define old where "old = (case map_of m i of None \<Rightarrow> [] | Some ss \<Rightarrow> ss)"
    define sn where "sn = seenUnder seen i"
    have eq: "addSegment i st j =
        (AList.update i (old @ [(i, j)]) m, AList.update i (sn @ [(i, j)]) seen)"
      using True st new
      by (simp add: addSegment_def isSeen_seenUnder appendSegment_def old_def sn_def)
    have old: "distinct old \<and> set old \<subseteq> set sn \<and>
        (\<forall>s \<in> set old. fst s = i \<and> 0 \<le> i \<and> i + 2 \<le> snd s)"
    proof (cases "map_of m i")
      case None
      then show ?thesis by (simp add: old_def)
    next
      case (Some ss)
      have "distinct ss \<and> set ss \<subseteq> set (seenUnder seen i) \<and>
          (\<forall>s \<in> set ss. fst s = i \<and> 0 \<le> i \<and> i + 2 \<le> snd s)"
        using assms(1) Some unfolding seg_inv_def st fst_conv snd_conv by blast
      with Some show ?thesis by (simp add: old_def sn_def)
    qed
    have notin: "(i, j) \<notin> set old" using old new by (auto simp: sn_def)
    have su: "seenUnder (AList.update i (sn @ [(i, j)]) seen) k =
        (if k = i then sn @ [(i, j)] else seenUnder seen k)" for k
      by (simp add: seenUnder_def update_conv')
    have "seg_inv (AList.update i (old @ [(i, j)]) m, AList.update i (sn @ [(i, j)]) seen)"
      unfolding seg_inv_def fst_conv snd_conv
    proof (intro conjI allI impI)
      show "distinct (map fst (AList.update i (old @ [(i, j)]) m))"
        using assms(1) st by (simp add: seg_inv_def distinct_update)
    next
      fix k ss
      assume "map_of (AList.update i (old @ [(i, j)]) m) k = Some ss"
      then have k: "(if k = i then Some (old @ [(i, j)]) else map_of m k) = Some ss"
        by (simp add: update_conv')
      have other: "ss \<noteq> [] \<and> distinct ss \<and> set ss \<subseteq> set (seenUnder seen k) \<and>
          (\<forall>s \<in> set ss. fst s = k \<and> 0 \<le> k \<and> k + 2 \<le> snd s)" if "k \<noteq> i"
      proof -
        from k that have "map_of m k = Some ss" by simp
        then show ?thesis using assms(1) unfolding seg_inv_def st fst_conv snd_conv by blast
      qed
      have this_key: "ss = old @ [(i, j)]" if "k = i" using k that by simp
      show "ss \<noteq> []" using this_key other by (cases "k = i") auto
      show "distinct ss" using this_key other old notin by (cases "k = i") auto
      show "set ss \<subseteq> set (seenUnder (AList.update i (sn @ [(i, j)]) seen) k)"
        using this_key other old by (cases "k = i") (auto simp: su)
      show "\<forall>s \<in> set ss. fst s = k \<and> 0 \<le> k \<and> k + 2 \<le> snd s"
        using this_key other old True assms(2) by (cases "k = i") auto
    qed
    with eq show ?thesis by simp
  qed
qed

lemma seg_inv_foldl_addSegment:
  "seg_inv st \<Longrightarrow> 0 \<le> i \<Longrightarrow> seg_inv (foldl (addSegment i) st rights)"
  by (induction rights arbitrary: st) (simp_all add: seg_inv_addSegment)

lemma seg_inv_foldl_lefts:
  "seg_inv st \<Longrightarrow> \<forall>i \<in> set lefts. 0 \<le> i \<Longrightarrow>
     seg_inv (foldl (\<lambda>st i. foldl (addSegment i) st rights) st lefts)"
  by (induction lefts arbitrary: st) (simp_all add: seg_inv_foldl_addSegment)

lemma seg_inv_addSegments:
  "\<forall>i \<in> set lefts. 0 \<le> i \<Longrightarrow> seg_inv (addSegments lefts rights)"
  unfolding addSegments_def by (rule seg_inv_foldl_lefts) (simp_all add: seg_inv_def)

lemma lookupPrefixes_loop_nonneg:
  "lookupPrefixes_loop word runeWord b lefts i = Inr (b', lefts', i') \<Longrightarrow>
   \<forall>l \<in> set lefts. 0 \<le> l \<Longrightarrow> \<forall>l \<in> set lefts'. 0 \<le> l"
proof (induction word runeWord b lefts i rule: lookupPrefixes_loop.induct)
  case (1 word runeWord b lefts i)
  show ?case
  proof (cases "i < length word \<and> i < length runeWord")
    case False
    then show ?thesis using "1.prems"
      by (subst (asm) lookupPrefixes_loop.simps) (auto split: if_splits)
  next
    case True
    show ?thesis
    proof (cases "map_of b (EncodeRune (runeWord ! i))")
      case None
      then show ?thesis using "1.prems" True
        by (subst (asm) lookupPrefixes_loop.simps) auto
    next
      case (Some t)
      show ?thesis
      proof (cases t)
        case Mark
        then show ?thesis using "1.prems" True Some
          by (subst (asm) lookupPrefixes_loop.simps) auto
      next
        case (Branch sub)
        have step: "lookupPrefixes_loop word runeWord sub
            (if hasHash b then lefts @ [int i] else lefts) (Suc i) = Inr (b', lefts', i')"
          using "1.prems"(1) True Some Branch
          by (subst (asm) lookupPrefixes_loop.simps) simp
        have "\<forall>l \<in> set (if hasHash b then lefts @ [int i] else lefts). 0 \<le> l"
          using "1.prems"(2) by auto
        with "1.IH" [OF _ _ Some Branch step] True show ?thesis by simp
      qed
    qed
  qed
qed

lemma lookupPrefixes_nonneg:
  assumes "lookupPrefixes als word = Inr lefts"
  shows "\<forall>l \<in> set lefts. 0 \<le> l"
proof -
  from assms obtain b ls i where
    loop: "lookupPrefixes_loop word (runes word) (prefixesTree als) [0] 0 = Inr (b, ls, i)"
    and lefts: "lefts = (if i < length word \<and> hasHash b then ls @ [int i] else ls)"
    by (auto simp: lookupPrefixes_def split: sum.splits)
  from lookupPrefixes_loop_nonneg [OF loop] have "\<forall>l \<in> set ls. 0 \<le> l" by simp
  with lefts show ?thesis by auto
qed

lemma segment_seg_inv:
  assumes "segment als word = Inr (segmentList, unvocalized, left, right)"
  shows "\<exists>seen. seg_inv (segmentList, seen)"
proof -
  from assms obtain lefts rights where
    l: "lookupPrefixes als (ReplaceAll word ALEF_MADDA (HAMZA @ ALEF)) = Inr lefts"
    and s: "segmentList = fst (addSegments lefts rights)"
    by (auto simp: segment_def Let_def split: sum.splits)
  have "seg_inv (addSegments lefts rights)"
    using lookupPrefixes_nonneg [OF l] by (rule seg_inv_addSegments)
  then have "seg_inv (segmentList, snd (addSegments lefts rights))" using s by simp
  then show ?thesis ..
qed

lemma segment_wellformed:
  assumes "segment als word = Inr (segmentList, unvocalized, left, right)"
  shows "wellformed segmentList \<and> distinct (map fst segmentList)"
proof -
  from segment_seg_inv [OF assms(1)] obtain seen where inv: "seg_inv (segmentList, seen)" ..
  then have d: "distinct (map fst segmentList)" by (simp add: seg_inv_def)
  have "wellformed segmentList"
    unfolding wellformed_def
  proof (intro ballI, clarify)
    fix k ss assume "(k, ss) \<in> set segmentList"
    with d have "map_of segmentList k = Some ss" by simp
    with inv show "ss \<noteq> [] \<and> (\<forall>(l, r) \<in> set ss. l = k \<and> 0 \<le> l \<and> 0 \<le> r)"
      by (fastforce simp: seg_inv_def)
  qed
  with d show ?thesis by simp
qed


text \<open>
  Claim C7. Every segment (left, right) that \<open>segment\<close> puts into the segment list
  has \<open>right \<ge> left + 2\<close> and is filed under its own left boundary; no list of the
  map holds a segment twice, and no left boundary has two lists.
\<close>

theorem segment_min_stem_no_duplicates:
  assumes "segment als word = Inr (segmentList, unvocalized, left, right)"
  shows "distinct (map fst segmentList) \<and>
         (\<forall>(k, ss) \<in> set segmentList.
            distinct ss \<and> (\<forall>(l, r) \<in> set ss. l = k \<and> r \<ge> l + 2))"
proof -
  from segment_seg_inv [OF assms] obtain seen where inv: "seg_inv (segmentList, seen)" ..
  then have d: "distinct (map fst segmentList)" by (simp add: seg_inv_def)
  have "distinct ss \<and> (\<forall>(l, r) \<in> set ss. l = k \<and> r \<ge> l + 2)"
    if "(k, ss) \<in> set segmentList" for k ss
  proof -
    from d that have "map_of segmentList k = Some ss" by simp
    with inv have "distinct ss" and "\<forall>s \<in> set ss. fst s = k \<and> k + 2 \<le> snd s"
      unfolding seg_inv_def fst_conv snd_conv by blast+
    then show ?thesis by auto
  qed
  with d show ?thesis by blast
qed

lemma segment_yaktubun:
  "segment exampleStemmer yaktubun =
     Inr ([(0, [(0, 6), (0, 4)]), (1, [(1, 6), (1, 4)])], yaktubun, 1, 4)"
  by (simp add: example codec letters stem_defs words cong: cbv)

theorem segment_min_stem_no_duplicates_witness:
  "segment exampleStemmer yaktubun =
     Inr ([(0, [(0, 6), (0, 4)]), (1, [(1, 6), (1, 4)])], yaktubun, 1, 4) \<and>
   distinct (map fst [(0::int, [(0::int, 6::int), (0, 4)]), (1, [(1, 6), (1, 4)])]) \<and>
   list_all (\<lambda>(k, ss). distinct ss \<and> list_all (\<lambda>(l, r). l = k \<and> r \<ge> l + 2) ss)
     [(0::int, [(0::int, 6::int), (0, 4)]), (1, [(1, 6), (1, 4)])]"
  using segment_min_stem_no_duplicates [OF segment_yaktubun] segment_yaktubun
  by (simp only: list_all_iff) blast

subsection \<open>The default boundaries\<close>

text \<open>
  For a non-empty segment map, \<open>getLeftRight\<close> returns the largest left boundary and
  the smallest right boundary over all segments of the map. A segment map holds character
  offsets, filed as the segmenter files them (\<open>wellformed\<close>); the lemma
  \<open>segment_wellformed\<close> above shows that every map \<open>segment\<close> returns is one.
\<close>

theorem getLeftRight_max_min:
  assumes "ls \<noteq> []" and "wellformed ls"
  shows "getLeftRight ls = (Max (fst ` set (segments_of ls)), Min (snd ` set (segments_of ls)))"
proof -
  have keys: "\<forall>k \<in> set (map fst ls). 0 \<le> k"
    using assms(2) by (force simp: wellformed_def neq_Nil_conv)
  have ne: "map fst ls \<noteq> []" using assms(1) by simp
  then obtain k where k: "k \<in> set (map fst ls)" by (cases ls) auto
  have "Max (insert (-1) (set (map fst ls))) = Max (set (map fst ls))"
  proof -
    have "Max (set (map fst ls)) \<ge> k" using k by (intro Max_ge) auto
    moreover have "0 \<le> k" using keys k by blast
    ultimately show ?thesis using ne by (simp add: Max_insert max_def del: set_map)
  qed
  then have left: "foldl (\<lambda>maxLeft left. if left > maxLeft then left else maxLeft) (-1) (map fst ls)
      = Max (fst ` set (segments_of ls))"
    using wellformed_keys [OF assms(2)] by (simp add: foldl_maxLeft)
  have rs: "\<forall>x \<in> set (map snd (segments_of ls)). 0 \<le> x"
  proof
    fix x assume "x \<in> set (map snd (segments_of ls))"
    then obtain l where "(l, x) \<in> set (segments_of ls)" by auto
    then obtain k ss where m: "(k, ss) \<in> set ls" and s: "(l, x) \<in> set ss"
      by (auto simp: segments_of_def)
    from assms(2) m have "\<forall>(l, r) \<in> set ss. 0 \<le> r" unfolding wellformed_def by blast
    with s show "0 \<le> x" by blast
  qed
  have "segments_of ls \<noteq> []"
    using assms by (cases ls) (auto simp: wellformed_def segments_of_def)
  then have right: "foldl (\<lambda>minRight right. if minRight = -1 \<or> right < minRight then right else minRight)
      (-1) (map snd (segments_of ls)) = Min (snd ` set (segments_of ls))"
    using foldl_minRight [OF rs] by simp
  show ?thesis
    using left right assms(1) by (simp add: getLeftRight_def segments_of_def)
qed


theorem getLeftRight_max_min_witness:
  "[(0::int, [(0::int, 6::int), (0, 4)]), (1, [(1, 6), (1, 4)])] \<noteq> [] \<and>
   wellformed [(0, [(0, 6), (0, 4)]), (1, [(1, 6), (1, 4)])] \<and>
   getLeftRight [(0, [(0, 6), (0, 4)]), (1, [(1, 6), (1, 4)])] = (1, 4)"
proof -
  have ne: "[(0::int, [(0::int, 6::int), (0, 4)]), (1, [(1, 6), (1, 4)])] \<noteq> []" by simp
  have wf: "wellformed [(0, [(0, 6), (0, 4)]), (1, [(1, 6), (1, 4)])]"
    by (simp add: wellformed_def)
  from getLeftRight_max_min [OF ne wf] ne wf show ?thesis
    by (simp add: segments_of_def)
qed

text \<open>
  The prefix that a left boundary cuts is \<open>unvocalized[:left]\<close>, the suffix that a right
  boundary cuts is \<open>unvocalized[right:]\<close>: their lengths in runes.
\<close>

lemma length_getPrefix:
  "0 \<le> l \<Longrightarrow> length (runes (getPrefix w l (-1))) = min (nat l) (length (runes w))"
  by (auto simp: getPrefix_def Let_def length_runes_gostring)

lemma length_getSuffix:
  assumes "0 \<le> r"
  shows "length (runes (getSuffix w r (-1))) = length (runes w) - nat r"
proof -
  have "runes [] = []" by (simp add: runes_def)
  then show ?thesis using assms
    by (auto simp: getSuffix_def Let_def length_runes_gostring)
qed

text \<open>
  Claim C8, amended. For a non-empty segment map, \<open>getLeftRight\<close> returns the largest
  left boundary and the smallest right boundary over all segments of the map. The suffix
  starts at the right boundary, so the smallest right boundary cuts the longest suffix:
  the pair is the longest admissible prefix combined with the longest admissible suffix.
  No segment of the map has a longer prefix or a longer suffix, for any word.
\<close>

theorem getLeftRight_longest_affixes:
  assumes "ls \<noteq> []" and "wellformed ls"
  shows "getLeftRight ls = (Max (fst ` set (segments_of ls)), Min (snd ` set (segments_of ls))) \<and>
         (\<forall>(l, r) \<in> set (segments_of ls).
            length (runes (getPrefix unvocalized l (-1)))
              \<le> length (runes (getPrefix unvocalized (fst (getLeftRight ls)) (-1))) \<and>
            length (runes (getSuffix unvocalized r (-1)))
              \<le> length (runes (getSuffix unvocalized (snd (getLeftRight ls)) (-1))))"
proof -
  have eq: "getLeftRight ls = (Max (fst ` set (segments_of ls)), Min (snd ` set (segments_of ls)))"
    using assms by (rule getLeftRight_max_min)
  have pos: "0 \<le> l \<and> 0 \<le> r" if "(l, r) \<in> set (segments_of ls)" for l r
  proof -
    from that obtain k ss where m: "(k, ss) \<in> set ls" and s: "(l, r) \<in> set ss"
      by (auto simp: segments_of_def)
    from assms(2) m have "\<forall>(l, r) \<in> set ss. l = k \<and> 0 \<le> l \<and> 0 \<le> r"
      unfolding wellformed_def by blast
    with s show ?thesis by blast
  qed
  have ne: "segments_of ls \<noteq> []"
    using assms by (cases ls) (auto simp: wellformed_def segments_of_def)
  then obtain l0 r0 where m0: "(l0, r0) \<in> set (segments_of ls)"
    by (cases "segments_of ls") auto
  have minin: "Min (snd ` set (segments_of ls)) \<in> snd ` set (segments_of ls)"
    using ne by (intro Min_in) auto
  then obtain lm where "(lm, Min (snd ` set (segments_of ls))) \<in> set (segments_of ls)"
    by auto
  then have minpos: "0 \<le> Min (snd ` set (segments_of ls))" using pos by blast
  have bound: "length (runes (getPrefix unvocalized l (-1)))
              \<le> length (runes (getPrefix unvocalized (fst (getLeftRight ls)) (-1))) \<and>
            length (runes (getSuffix unvocalized r (-1)))
              \<le> length (runes (getSuffix unvocalized (snd (getLeftRight ls)) (-1)))"
    if m: "(l, r) \<in> set (segments_of ls)" for l r
  proof -
    have l: "l \<le> Max (fst ` set (segments_of ls))"
      using m by (intro Max_ge) (auto intro: rev_image_eqI)
    have r: "Min (snd ` set (segments_of ls)) \<le> r"
      using m by (intro Min_le) (auto intro: rev_image_eqI)
    have l0: "0 \<le> l" and r0: "0 \<le> r" using pos [OF m] by auto
    have "0 \<le> Max (fst ` set (segments_of ls))" using l l0 by linarith
    then have "length (runes (getPrefix unvocalized l (-1)))
          \<le> length (runes (getPrefix unvocalized (Max (fst ` set (segments_of ls))) (-1)))"
      using l l0 by (simp add: length_getPrefix)
    moreover have "length (runes (getSuffix unvocalized r (-1)))
          \<le> length (runes (getSuffix unvocalized (Min (snd ` set (segments_of ls))) (-1)))"
      using r r0 minpos by (simp add: length_getSuffix)
    ultimately show ?thesis by (simp add: eq)
  qed
  show ?thesis using eq bound by blast
qed

theorem getLeftRight_longest_affixes_witness:
  "[(0::int, [(0::int, 6::int), (0, 4)]), (1, [(1, 6), (1, 4)])] \<noteq> [] \<and>
   wellformed [(0, [(0, 6), (0, 4)]), (1, [(1, 6), (1, 4)])] \<and>
   getLeftRight [(0, [(0, 6), (0, 4)]), (1, [(1, 6), (1, 4)])] = (1, 4) \<and>
   list_all (\<lambda>(l, r).
       length (runes (getPrefix yaktubun l (-1))) \<le> length (runes (getPrefix yaktubun 1 (-1))) \<and>
       length (runes (getSuffix yaktubun r (-1))) \<le> length (runes (getSuffix yaktubun 4 (-1))))
     (segments_of [(0, [(0, 6), (0, 4)]), (1, [(1, 6), (1, 4)])])"
proof -
  have ne: "[(0::int, [(0::int, 6::int), (0, 4)]), (1, [(1, 6), (1, 4)])] \<noteq> []" by simp
  have wf: "wellformed [(0, [(0, 6), (0, 4)]), (1, [(1, 6), (1, 4)])]"
    by (simp add: wellformed_def)
  have g: "getLeftRight [(0, [(0, 6), (0, 4)]), (1, [(1, 6), (1, 4)])] = (1, 4)"
    by (simp add: getLeftRight_def)
  from getLeftRight_longest_affixes [OF ne wf, of yaktubun]
  have "\<forall>(l, r) \<in> set (segments_of [(0, [(0, 6), (0, 4)]), (1, [(1, 6), (1, 4)])]).
       length (runes (getPrefix yaktubun l (-1))) \<le> length (runes (getPrefix yaktubun 1 (-1))) \<and>
       length (runes (getSuffix yaktubun r (-1))) \<le> length (runes (getSuffix yaktubun 4 (-1)))"
    unfolding g fst_conv snd_conv by blast
  then have "list_all (\<lambda>(l, r).
       length (runes (getPrefix yaktubun l (-1))) \<le> length (runes (getPrefix yaktubun 1 (-1))) \<and>
       length (runes (getSuffix yaktubun r (-1))) \<le> length (runes (getSuffix yaktubun 4 (-1))))
     (segments_of [(0, [(0, 6), (0, 4)]), (1, [(1, 6), (1, 4)])])"
    by (simp only: list_all_iff)
  with ne wf g show ?thesis by blast
qed

lemma getSuffix_yaktubun_4: "getSuffix yaktubun 4 (-1) = wn"
  by (simp add: example codec letters stem_defs words cong: cbv)

lemma getSuffix_yaktubun_6: "getSuffix yaktubun 6 (-1) = []"
  by (simp add: example codec letters stem_defs words cong: cbv)

lemma length_wn: "length (runes wn) = 2"
  by (simp add: codec words cong: cbv)

text \<open>
  Claim C8 calls the pair the longest admissible prefix combined with the shortest
  admissible suffix. For Yeh-Kaf-Teh-Beh-Waw-Noon the segmenter finds the right boundaries
  6 and 4; \<open>getLeftRight\<close> returns 4, which cuts the suffix Waw-Noon, while the segment
  \<open>(0, 6)\<close> of the same map has the empty suffix, which is shorter.
\<close>

theorem getLeftRight_not_shortest_suffix:
  "segment exampleStemmer yaktubun =
     Inr ([(0, [(0, 6), (0, 4)]), (1, [(1, 6), (1, 4)])], yaktubun, 1, 4) \<and>
   getLeftRight [(0, [(0, 6), (0, 4)]), (1, [(1, 6), (1, 4)])] = (1, 4) \<and>
   (0, 6) \<in> set (segments_of [(0, [(0, 6), (0, 4)]), (1, [(1, 6), (1, 4)])]) \<and>
   getSuffix yaktubun 4 (-1) = wn \<and> getSuffix yaktubun 6 (-1) = [] \<and>
   length (runes (getSuffix yaktubun 6 (-1))) < length (runes (getSuffix yaktubun 4 (-1)))"
proof -
  have "getLeftRight [(0, [(0, 6), (0, 4)]), (1, [(1, 6), (1, 4)])] = (1, 4)"
    by (simp add: getLeftRight_def)
  moreover have "(0, 6) \<in> set (segments_of [(0::int, [(0::int, 6::int), (0, 4)]), (1, [(1, 6), (1, 4)])])"
    by (simp add: segments_of_def)
  moreover have "length (runes (getSuffix yaktubun 6 (-1))) < length (runes (getSuffix yaktubun 4 (-1)))"
    by (simp only: getSuffix_yaktubun_4 getSuffix_yaktubun_6 length_wn) (simp add: runes_def)
  ultimately show ?thesis
    using segment_yaktubun getSuffix_yaktubun_4 getSuffix_yaktubun_6 by blast
qed

section \<open>The entry point\<close>

text \<open>
  Claim C9. \<open>LightStem\<close> of the empty string is the empty string, whatever the stemmer
  holds: the star transform, the segmenter and the validator are not consulted.
\<close>

theorem LightStem_empty: "LightStem fuel als [] = Inr []"
  by (simp add: LightStem_def)

text \<open>
  Claim C1 says that no stage of \<open>LightStem\<close> panics. The loop of \<open>lookupPrefixes\<close>
  runs while \<open>i < len(word)\<close>, the length in bytes, and reads \<open>runeWord[i]\<close>, a rune.
  When every rune of the word is matched along the prefix tree, \<open>i\<close> reaches the
  number of runes while it is still below the number of bytes, and the read panics. The
  one-letter word Beh, a prefix of the example stemmer, is such a word.
\<close>

theorem LightStem_index_out_of_range:
  "LightStem fuel exampleStemmer beh = Inl IndexOutOfRange"
  by (simp add: example codec letters stem_defs words cong: cbv)

section \<open>Choosing the stem\<close>

lemma segment_unvocalized:
  "segment als word = Inr (segmentList, unvocalized, left, right) \<Longrightarrow>
     unvocalized = StripTashkeel als word"
  by (auto simp: segment_def Let_def split: sum.splits)

lemma andThen_eq_Inr:
  "andThen m f = Inr y \<longleftrightarrow> (\<exists>x. m = Inr x \<and> f x = Inr y)"
  by (cases m) (simp_all add: andThen_def)



lemma chooseStem_is_slice:
  assumes "chooseStem fuel als word unvocalized left right stemLeft stemRight segmentList = Inr stem"
    and "\<not> IsStopword als word"
  shows "\<exists>lo hi rs. slice (runes unvocalized) lo hi = Inr rs \<and> stem = gostring rs"
proof (cases fuel)
  case 0
  with assms show ?thesis by simp
next
  case (Suc n)
  with assms show ?thesis
    by (auto simp: andThen_eq_Inr Let_def)
qed

lemma getStem_default_is_slice:
  assumes "getStem fuel als word unvocalized left right stemLeft stemRight (-1) (-1) segmentList = Inr stem"
    and "\<not> IsStopword als word"
  shows "\<exists>lo hi rs. slice (runes unvocalized) lo hi = Inr rs \<and> stem = gostring rs"
proof (cases fuel)
  case 0
  with assms show ?thesis by simp
next
  case (Suc n)
  with assms have "chooseStem n als word unvocalized left right stemLeft stemRight segmentList = Inr stem"
    by simp
  from chooseStem_is_slice [OF this assms(2)] show ?thesis .
qed


text \<open>
  Claim C10. For a non-empty word that is not a stopword, the string \<open>LightStem\<close>
  returns is a contiguous run of the runes of the tashkeel-stripped word: it is sliced
  out of the unvocalized word between two boundaries.
\<close>

theorem LightStem_is_substring:
  assumes "LightStem fuel als word = Inr stem" and "word \<noteq> []" and "\<not> IsStopword als word"
  shows "\<exists>lo hi. 0 \<le> lo \<and> lo \<le> hi \<and> hi \<le> int (length (runes (StripTashkeel als word))) \<and>
           stem = gostring (take (nat hi - nat lo) (drop (nat lo) (runes (StripTashkeel als word))))"
proof -
  from assms(1,2) obtain starword u0 stemLeft stemRight segmentList unvocalized left right where
    seg: "segment als word = Inr (segmentList, unvocalized, left, right)"
    and gs: "getStem fuel als word unvocalized left right stemLeft stemRight (-1) (-1) segmentList = Inr stem"
    by (auto simp: LightStem_def andThen_eq_Inr)
  from getStem_default_is_slice [OF gs assms(3)] obtain lo hi rs where
    sl: "slice (runes unvocalized) lo hi = Inr rs" and st: "stem = gostring rs" by blast
  from sl have "0 \<le> lo \<and> lo \<le> hi \<and> hi \<le> int (length (runes unvocalized))"
    and "rs = take (nat hi - nat lo) (drop (nat lo) (runes unvocalized))"
    by (auto simp: slice_def split: if_splits)
  with st segment_unvocalized [OF seg] show ?thesis by blast
qed


lemma LightStem_alkatib: "LightStem (Suc (Suc (Suc (Suc 0)))) exampleStemmer alkatib = Inr katib"
  by (simp add: example codec letters stem_defs words cong: cbv)

lemma alkatib_no_stopword: "\<not> IsStopword exampleStemmer alkatib"
  by (simp add: example codec letters stem_defs words cong: cbv)

theorem LightStem_is_substring_witness:
  "LightStem (Suc (Suc (Suc (Suc 0)))) exampleStemmer alkatib = Inr katib \<and>
   alkatib \<noteq> [] \<and> \<not> IsStopword exampleStemmer alkatib \<and>
   (\<exists>lo hi. 0 \<le> lo \<and> lo \<le> hi \<and>
      hi \<le> int (length (runes (StripTashkeel exampleStemmer alkatib))) \<and>
      katib = gostring (take (nat hi - nat lo)
                (drop (nat lo) (runes (StripTashkeel exampleStemmer alkatib)))))"
proof -
  have ne: "alkatib \<noteq> []" by (simp add: codec words)
  from LightStem_is_substring [OF LightStem_alkatib ne alkatib_no_stopword]
    LightStem_alkatib ne alkatib_no_stopword
  show ?thesis by blast
qed

lemma validSegments_none:
  assumes "\<forall>(leftIndex, seg) \<in> set segs. verify leftIndex (snd seg) = Inr False"
  shows "validSegments verify segs acc = Inr acc"
  using assms by (induction segs arbitrary: acc) auto

lemma chooseStem_fallback:
  assumes "\<not> IsStopword als word"
    and "segment als word = Inr sg"
    and "\<forall>(leftIndex, seg) \<in> set (keyed segmentList).
           verifyAffix fuel als word unvocalized left right stemLeft stemRight leftIndex (snd seg)
             segmentList = Inr False"
    and "length (runes unvocalized) \<le> length (runes word)"
  shows "chooseStem (Suc fuel) als word unvocalized left right stemLeft stemRight segmentList
           = Inr (gostring (runes unvocalized))"
proof -
  have v: "validSegments
             (\<lambda>leftIndex rightIndex.
                verifyAffix fuel als word unvocalized left right stemLeft stemRight leftIndex
                  rightIndex segmentList)
             (keyed segmentList) [] = Inr []"
    using assms(3) by (intro validSegments_none) auto
  show ?thesis
    using assms(1,2,4) by (simp add: v andThen_def slice_def Let_def)
qed


subsection \<open>The fallback to the whole word\<close>

text \<open>
  When the star transform and the segmenter return on a non-empty word that is not a
  stopword, and no enumerated segment passes \<open>verifyAffix\<close>, \<open>LightStem\<close> returns the
  whole unvocalized word: the slice from 0 to its length in runes. For a word that is
  well-formed UTF-8 this is the tashkeel-stripped word itself.
\<close>

lemma LightStem_whole_word_fallback:
  assumes "word \<noteq> []" and "\<not> IsStopword als word"
    and "transform2Stars als word = Inr (starword, unvocalized0, stemLeft, stemRight)"
    and "segment als word = Inr (segmentList, unvocalized, left, right)"
    and "\<forall>(leftIndex, seg) \<in> set (keyed segmentList).
           verifyAffix fuel als word unvocalized left right stemLeft stemRight leftIndex (snd seg)
             segmentList = Inr False"
  shows "LightStem (Suc (Suc fuel)) als word = Inr (gostring (runes (StripTashkeel als word))) \<and>
         (gostring (runes word) = word \<longrightarrow>
            LightStem (Suc (Suc fuel)) als word = Inr (StripTashkeel als word))"
proof -
  have u: "unvocalized = StripTashkeel als word"
    using assms(4) by (auto simp: segment_def Let_def split: sum.splits)
  have len: "length (runes unvocalized) \<le> length (runes word)"
    unfolding u by (rule length_runes_StripTashkeel)
  have "chooseStem (Suc fuel) als word unvocalized left right stemLeft stemRight segmentList
          = Inr (gostring (runes unvocalized))"
    using assms(2,4,5) len by (rule chooseStem_fallback)
  then have "LightStem (Suc (Suc fuel)) als word = Inr (gostring (runes unvocalized))"
    using assms(1,3,4) by (simp add: LightStem_def andThen_def)
  then show ?thesis using u StripTashkeel_wellformed [of word als] by simp
qed


lemma transform2Stars_bwn: "transform2Stars strictStemmer bwn = Inr (bwn, bwn, 1, 1)"
  by (simp add: example codec letters stem_defs words cong: cbv)

lemma segment_bwn:
  "segment strictStemmer bwn = Inr ([(0, [(0, 3)]), (1, [(1, 3)])], bwn, 1, 3)"
  by (simp add: example codec letters stem_defs words cong: cbv)

lemma verify_bwn:
  "list_all (\<lambda>(leftIndex, seg).
      verifyAffix (Suc (Suc 0)) strictStemmer bwn bwn 1 3 1 1 leftIndex (snd seg)
        [(0, [(0, 3)]), (1, [(1, 3)])] = Inr False)
     (keyed [(0, [(0, 3)]), (1, [(1, 3)])])"
  by (simp add: example codec letters stem_defs words cong: cbv)

lemma bwn_no_stopword: "\<not> IsStopword strictStemmer bwn"
  by (simp add: example codec letters stem_defs words cong: cbv)

lemma StripTashkeel_bwn: "gostring (runes (StripTashkeel strictStemmer bwn)) = bwn"
  by (simp add: example codec letters stem_defs words cong: cbv)

text \<open>Beh-Waw-Noon on a stemmer that accepts no bare stem is such a word.\<close>

lemma LightStem_whole_word_fallback_bwn:
  "bwn \<noteq> [] \<and> \<not> IsStopword strictStemmer bwn \<and>
   transform2Stars strictStemmer bwn = Inr (bwn, bwn, 1, 1) \<and>
   segment strictStemmer bwn = Inr ([(0, [(0, 3)]), (1, [(1, 3)])], bwn, 1, 3) \<and>
   list_all (\<lambda>(leftIndex, seg).
      verifyAffix (Suc (Suc 0)) strictStemmer bwn bwn 1 3 1 1 leftIndex (snd seg)
        [(0, [(0, 3)]), (1, [(1, 3)])] = Inr False)
     (keyed [(0, [(0, 3)]), (1, [(1, 3)])]) \<and>
   LightStem (Suc (Suc (Suc (Suc 0)))) strictStemmer bwn = Inr bwn"
proof -
  have ne: "bwn \<noteq> []" by (simp add: codec words)
  have v: "\<forall>(leftIndex, seg) \<in> set (keyed [(0, [(0, 3)]), (1, [(1, 3)])]).
      verifyAffix (Suc (Suc 0)) strictStemmer bwn bwn 1 3 1 1 leftIndex (snd seg)
        [(0, [(0, 3)]), (1, [(1, 3)])] = Inr False"
    using verify_bwn by (simp only: list_all_iff)
  from LightStem_whole_word_fallback [OF ne bwn_no_stopword transform2Stars_bwn segment_bwn v]
  have "LightStem (Suc (Suc (Suc (Suc 0)))) strictStemmer bwn = Inr bwn"
    by (simp only: StripTashkeel_bwn)
  with ne bwn_no_stopword transform2Stars_bwn segment_bwn verify_bwn show ?thesis by blast
qed

text \<open>
  Claim C3 names the word that prefix matching consumes entirely as a case of the
  fallback. The article Alef-Lam is such a word: it is not empty, it is not a stopword,
  and it is a prefix of the stemmer, so that no stem of two letters remains. The
  fallback is not reached: \<open>lookupPrefixes\<close> follows the prefix tree to the end of the
  word and then reads \<open>runeWord[i]\<close> with \<open>i\<close> equal to the number of runes, because its
  loop is bounded by the number of bytes, and \<open>LightStem\<close> panics instead of returning
  the whole word.
\<close>

theorem LightStem_prefix_word_no_fallback:
  "al \<noteq> [] \<and> \<not> IsStopword strictStemmer al \<and> al \<in> set (prefixList strictStemmer) \<and>
   lookupPrefixes strictStemmer al = Inl IndexOutOfRange \<and>
   (\<forall>fuel. LightStem fuel strictStemmer al = Inl IndexOutOfRange)"
  by (simp add: example codec letters stem_defs words cong: cbv)

subsection \<open>Stopwords\<close>

text \<open>
  When the star transform and the segmenter have returned, a stopword is answered with
  the stem of the table, whatever the segments are.
\<close>

lemma LightStem_stopword:
  assumes "word \<noteq> []" and "IsStopword als word"
    and "transform2Stars als word = Inr st" and "segment als word = Inr sg"
  shows "LightStem (Suc (Suc fuel)) als word = Inr (StopStem als word)"
  using assms by (cases st; cases sg) (simp add: LightStem_def andThen_def)


text \<open>
  Claim C2 says that \<open>LightStem\<close> returns the stem of the table for every stopword and
  that the lookup bypasses segmentation. The lookup is the first step of \<open>chooseStem\<close>,
  which runs after \<open>transform2Stars\<close> and \<open>segment\<close>. The stopword Beh, which is also
  a prefix, makes \<open>lookupPrefixes\<close> read past the runes of the word, and \<open>LightStem\<close>
  panics instead of returning the stem.
\<close>

theorem LightStem_stopword_panics:
  "IsStopword exampleStemmer beh \<and> StopStem exampleStemmer beh = beh \<and>
   (\<forall>fuel. LightStem fuel exampleStemmer beh = Inl IndexOutOfRange)"
  by (simp add: example codec letters stem_defs words cong: cbv)

section \<open>Verb stems\<close>

lemma runes_Nil_iff: "runes s = [] \<longleftrightarrow> s = []"
  by (cases s) (simp_all add: runes_def Let_def del: DecodeRuneInString.simps)

lemma runes_EncodeRune: "runes (EncodeRune r) = [sanitize r]"
  using runes_gostring [of "[r]"] by (simp add: gostring_def)

lemma weak_last_letter:
  "ContainsAny (EncodeRune r) (YEH @ NOON @ TEH @ ALEF_HAMZA_ABOVE @ ALEF)
     \<longleftrightarrow> r \<in> {0x64A, 0x646, 0x62A, 0x623, 0x627}"
proof -
  have "YEH @ NOON @ TEH @ ALEF_HAMZA_ABOVE @ ALEF = gostring [0x64A, 0x646, 0x62A, 0x623, 0x627]"
    by (simp add: gostring_def letters)
  then have "runes (YEH @ NOON @ TEH @ ALEF_HAMZA_ABOVE @ ALEF) = [0x64A, 0x646, 0x62A, 0x623, 0x627]"
    by (simp add: runes_gostring sanitize_def)
  then show ?thesis
    by (auto simp: ContainsAny_def runes_EncodeRune sanitize_def RuneError_def)
qed


text \<open>
  Claim C6. \<open>validStem\<close> with the tag \<open>verb\<close> accepts a stem exactly when the verb rules
  of the specification hold of it.
\<close>

theorem validStem_verb_rules:
  "validStem als stem ''verb'' prefix = verbStemAccepted als stem prefix"
proof (cases "stem = []")
  case True
  then show ?thesis by (simp add: validStem_def verbStemAccepted_def runes_def)
next
  case False
  have l: "runes prefix \<noteq> [] \<Longrightarrow> runes prefix ! (length (runes prefix) - 1) = last (runes prefix)"
    by (simp add: last_conv_nth)
  show ?thesis
    using False l
    by (auto simp add: validStem_def verbStemAccepted_def Let_def weak_last_letter
        simp del: insert_iff)
qed


lemma verbStemAccepted_ktb: "verbStemAccepted exampleStemmer ktb yeh"
  by (simp add: verbStemAccepted_def example codec letters stem_defs words cong: cbv)

theorem validStem_verb_rules_witness:
  "verbStemAccepted exampleStemmer ktb yeh \<and> validStem exampleStemmer ktb ''verb'' yeh"
  using validStem_verb_rules [of exampleStemmer ktb yeh] verbStemAccepted_ktb by simp

section \<open>Roots\<close>

subsection \<open>The candidates of chooseRoot\<close>

text \<open>
  \<open>getRoot\<close> calls \<open>extractRoot\<close> when an index is given and drops its result: the root
  of every affix tuple is the \<open>root\<close> argument of the call. With neither index given,
  \<open>getRoot\<close> calls \<open>chooseRoot\<close> with the arguments it was reached with, and the call
  does not return for any fuel.
\<close>

lemma forEach_results:
  "forEach f xs = Inr ys \<Longrightarrow> y \<in> set ys \<Longrightarrow> \<exists>x \<in> set xs. f x = Inr y"
proof (induction xs arbitrary: ys)
  case Nil
  then show ?case by simp
next
  case (Cons x xs)
  from Cons.prems(1) obtain z zs where
    z: "f x = Inr z" and zs: "forEach f xs = Inr zs" and ys: "ys = z # zs"
    by (auto split: sum.splits)
  show ?case
  proof (cases "y = z")
    case True
    with z show ?thesis by auto
  next
    case False
    with Cons.prems(2) ys have "y \<in> set zs" by simp
    from Cons.IH [OF zs this] show ?thesis by auto
  qed
qed

lemma getRoot_given_index:
  assumes "getRoot fuel als word unvocalized root left right stemLeft stemRight prefixIndex
             suffixIndex segmentList = Inr r"
    and "prefixIndex \<ge> 0 \<or> suffixIndex \<ge> 0"
  shows "r = root"
  using assms by (cases fuel) (auto simp: andThen_eq_Inr)

lemma chooseRoot_no_index_no_return:
  assumes "\<not> IsStopword als word" and "keyed segmentList \<noteq> []"
    and "prefixIndex < 0" and "suffixIndex < 0"
  shows "chooseRoot fuel als word unvocalized root stemLeft stemRight prefixIndex suffixIndex
           segmentList \<noteq> Inr r"
proof (induction fuel arbitrary: r rule: less_induct)
  case (less fuel)
  show ?case
  proof
    assume ret: "chooseRoot fuel als word unvocalized root stemLeft stemRight prefixIndex
                   suffixIndex segmentList = Inr r"
    then obtain f where f: "fuel = Suc f" by (cases fuel) auto
    from ret f assms(1) obtain affixList where
      al: "getAffixList f als word unvocalized root stemLeft stemRight prefixIndex suffixIndex
             segmentList = Inr affixList"
      by (auto simp: andThen_eq_Inr)
    then obtain f1 where f1: "f = Suc f1" by (cases f) auto
    from assms(2) obtain leftIndex pair rest where
      k: "keyed segmentList = (leftIndex, pair) # rest" by (cases "keyed segmentList") auto
    from al f1 k obtain d where
      d: "getAffixTuple f1 als word unvocalized root leftIndex (snd pair) stemLeft stemRight
            prefixIndex suffixIndex segmentList = Inr d"
      by (auto split: sum.splits)
    then obtain f2 where f2: "f1 = Suc f2" by (cases f1) auto
    from d f2 obtain r' where
      gr: "getRoot f2 als word unvocalized root leftIndex (snd pair) stemLeft stemRight
             prefixIndex suffixIndex segmentList = Inr r'"
      by (auto simp: andThen_eq_Inr)
    then obtain f3 where f3: "f2 = Suc f3" by (cases f2) auto
    from gr f3 assms(3,4) have
      "chooseRoot f3 als word unvocalized root stemLeft stemRight prefixIndex suffixIndex
         segmentList = Inr r'" by simp
    moreover have "f3 < fuel" using f f1 f2 f3 by simp
    ultimately show False using less.IH by blast
  qed
qed

lemma getAffixList_roots:
  assumes "getAffixList fuel als word unvocalized root stemLeft stemRight prefixIndex
             suffixIndex segmentList = Inr affixList"
    and "\<not> IsStopword als word" and "d \<in> set affixList"
  shows "rootOf d = root"
proof -
  from assms(1) obtain f where f: "fuel = Suc f" by (cases fuel) auto
  from assms(1) f have fe: "forEach (\<lambda>(leftIndex, pair).
        getAffixTuple f als word unvocalized root leftIndex (snd pair) stemLeft stemRight
          prefixIndex suffixIndex segmentList) (keyed segmentList) = Inr affixList" by simp
  from forEach_results [OF fe assms(3)] obtain leftIndex pair where
    mem: "(leftIndex, pair) \<in> set (keyed segmentList)"
    and t: "getAffixTuple f als word unvocalized root leftIndex (snd pair) stemLeft stemRight
              prefixIndex suffixIndex segmentList = Inr d" by auto
  from t obtain f1 where f1: "f = Suc f1" by (cases f) auto
  from t f1 obtain r' where
    gr: "getRoot f1 als word unvocalized root leftIndex (snd pair) stemLeft stemRight
           prefixIndex suffixIndex segmentList = Inr r'"
    and rd: "rootOf d = r'"
    by (auto simp: andThen_eq_Inr)
  show ?thesis
  proof (cases "prefixIndex \<ge> 0 \<or> suffixIndex \<ge> 0")
    case True
    from getRoot_given_index [OF gr True] rd show ?thesis by simp
  next
    case False
    then have neg: "prefixIndex < 0" "suffixIndex < 0" by auto
    from gr obtain f2 where f2: "f1 = Suc f2" by (cases f1) auto
    from gr f2 neg have "chooseRoot f2 als word unvocalized root stemLeft stemRight prefixIndex
                           suffixIndex segmentList = Inr r'" by simp
    moreover have "keyed segmentList \<noteq> []" using mem by auto
    ultimately show ?thesis
      using chooseRoot_no_index_no_return [OF assms(2) _ neg] by blast
  qed
qed

lemma set_insertString: "set (insertString s ts) = insert s (set ts)"
  by (induction ts) auto

lemma set_sortStrings: "set (sortStrings lst) = set lst"
  by (induction lst) (simp_all add: sortStrings_def set_insertString)

lemma foldl_count_same:
  assumes "\<forall>y \<in> set ys. y = x"
  shows "foldl (\<lambda>(best, maxCount) item.
                  if count_list lst item > maxCount then (item, count_list lst item)
                  else (best, maxCount)) (b, m) ys
         = (if ys \<noteq> [] \<and> count_list lst x > m then (x, count_list lst x) else (b, m))"
  using assms by (induction ys arbitrary: b m) auto

lemma count_list_pos: "x \<in> set l \<Longrightarrow> count_list l x > 0"
  by (induction l) auto

lemma mostCommon_same:
  assumes "set lst \<subseteq> {x}" and "lst \<noteq> []"
  shows "mostCommon lst = x"
proof -
  define l where "l = (if filter (\<lambda>item. length item = 3) lst \<noteq> []
                       then filter (\<lambda>item. length item = 3) lst else lst)"
  have sub: "set l \<subseteq> {x}" and ne: "l \<noteq> []" using assms by (auto simp: l_def)
  then have mem: "x \<in> set l" by (cases l) auto
  then have c: "count_list l x > 0" by (rule count_list_pos)
  have s: "\<forall>y \<in> set (sortStrings l). y = x" using sub by (auto simp: set_sortStrings)
  have sne: "sortStrings l \<noteq> []" using mem set_sortStrings [of l] by auto
  have "mostCommon lst = fst (foldl (\<lambda>(best, maxCount) item.
                  if count_list l item > maxCount then (item, count_list l item)
                  else (best, maxCount)) ([], 0) (sortStrings l))"
    unfolding mostCommon_def Let_def l_def ..
  also have "\<dots> = x" using c sne by (simp add: foldl_count_same [OF s])
  finally show ?thesis .
qed

lemma selectRoot_same:
  assumes "set rs \<subseteq> {x}" and "rs \<noteq> []"
  shows "selectRoot als rs = x"
proof -
  define r1 where "r1 = (if filter isRootLengthValid rs \<noteq> [] then filter isRootLengthValid rs else rs)"
  define r2 where "r2 = (if filter (IsRoot als) r1 \<noteq> [] then filter (IsRoot als) r1 else r1)"
  have "set r1 \<subseteq> {x}" "r1 \<noteq> []" using assms by (auto simp: r1_def)
  then have "set r2 \<subseteq> {x}" "r2 \<noteq> []" by (auto simp: r2_def)
  then have "mostCommon r2 = x" by (rule mostCommon_same)
  moreover have "selectRoot als rs = mostCommon r2"
    unfolding selectRoot_def Let_def r2_def r1_def ..
  ultimately show ?thesis by simp
qed

lemma getAffixList_no_segments:
  assumes "getAffixList fuel als word unvocalized root stemLeft stemRight prefixIndex
             suffixIndex [] = Inr affixList"
  shows "affixList = []"
  using assms by (cases fuel) (auto simp: keyed_def)

text \<open>
  Claim C4. When the candidate roots of a call of \<open>chooseRoot\<close> hold a root of two,
  three or four letters, the call returns a root, and that root has two, three or four
  letters.
\<close>

theorem chooseRoot_root_length:
  assumes "candidateRoots fuel als word unvocalized root stemLeft stemRight prefixIndex
             suffixIndex segmentList = Some candidates"
    and "\<exists>c \<in> set candidates. length (runes c) \<in> {2, 3, 4}"
  shows "\<exists>r. chooseRoot fuel als word unvocalized root stemLeft stemRight prefixIndex
                suffixIndex segmentList = Inr r \<and> length (runes r) \<in> {2, 3, 4}"
proof -
  from assms(1) obtain f where f: "fuel = Suc f" by (cases fuel) auto
  from assms(1) f have ns: "\<not> IsStopword als word" by (auto split: if_splits)
  from assms(1) f ns obtain affixList where
    al: "getAffixList f als word unvocalized root stemLeft stemRight prefixIndex suffixIndex
           segmentList = Inr affixList"
    and rs: "candidates = map rootOf affixList"
    by (auto split: sum.splits)
  from assms(2) obtain c where c: "c \<in> set candidates"
    and len: "length (runes c) \<in> {2, 3, 4}" by blast
  from c rs obtain d where d: "d \<in> set affixList" and cd: "c = rootOf d" by auto
  have all: "set candidates \<subseteq> {root}"
    unfolding rs using getAffixList_roots [OF al ns] by auto
  have ne: "candidates \<noteq> []" using c by auto
  have seg: "segmentList \<noteq> []"
  proof
    assume "segmentList = []"
    with al have "affixList = []" by (auto dest: getAffixList_no_segments)
    with d show False by simp
  qed
  have "chooseRoot fuel als word unvocalized root stemLeft stemRight prefixIndex suffixIndex
          segmentList = Inr (selectRoot als candidates)"
    using f ns al seg rs by (simp add: andThen_def)
  moreover have "selectRoot als candidates = root" using all ne by (rule selectRoot_same)
  moreover have "c = root" using getAffixList_roots [OF al ns d] cd by simp
  ultimately show ?thesis using len by simp
qed

lemma getAffixList_yaktubun:
  "getAffixList (Suc (Suc (Suc (Suc 0)))) exampleStemmer yaktubun yaktubun ktb 1 4 1 4
     [(0, [(0, 6), (0, 4)]), (1, [(1, 6), (1, 4)])] =
   Inr [\<lparr>prefixOf = yeh, suffixOf = wn, stemOf = ktb, starstemOf = ''**'', rootOf = ktb\<rparr>,
        \<lparr>prefixOf = yeh, suffixOf = wn, stemOf = ktb, starstemOf = ''**'', rootOf = ktb\<rparr>,
        \<lparr>prefixOf = yeh, suffixOf = wn, stemOf = ktb, starstemOf = ''**'', rootOf = ktb\<rparr>,
        \<lparr>prefixOf = yeh, suffixOf = wn, stemOf = ktb, starstemOf = ''**'', rootOf = ktb\<rparr>]"
  by (simp add: example codec letters stem_defs words cong: cbv)

lemma yaktubun_no_stopword: "\<not> IsStopword exampleStemmer yaktubun"
  by (simp add: example codec letters stem_defs words cong: cbv)

lemma candidateRoots_yaktubun:
  "candidateRoots (Suc (Suc (Suc (Suc (Suc 0))))) exampleStemmer yaktubun yaktubun ktb 1 4 1 4
     [(0, [(0, 6), (0, 4)]), (1, [(1, 6), (1, 4)])] = Some [ktb, ktb, ktb, ktb]"
  by (simp add: getAffixList_yaktubun yaktubun_no_stopword del: getAffixList.simps)

lemma runes_ktb: "runes ktb = [0x643, 0x62A, 0x628]"
  by (simp add: codec words cong: cbv)

lemma selectRoot_ktb: "selectRoot exampleStemmer [ktb, ktb, ktb, ktb] = ktb"
  by (rule selectRoot_same) simp_all

lemma chooseRoot_yaktubun:
  "chooseRoot (Suc (Suc (Suc (Suc (Suc 0))))) exampleStemmer yaktubun yaktubun ktb 1 4 1 4
     [(0, [(0, 6), (0, 4)]), (1, [(1, 6), (1, 4)])] = Inr ktb"
  by (simp add: getAffixList_yaktubun yaktubun_no_stopword selectRoot_ktb andThen_def
        del: getAffixList.simps)

theorem chooseRoot_root_length_witness:
  "candidateRoots (Suc (Suc (Suc (Suc (Suc 0))))) exampleStemmer yaktubun yaktubun ktb 1 4 1 4
     [(0, [(0, 6), (0, 4)]), (1, [(1, 6), (1, 4)])] = Some [ktb, ktb, ktb, ktb] \<and>
   list_ex (\<lambda>c. length (runes c) \<in> {2, 3, 4}) [ktb, ktb, ktb, ktb] \<and>
   chooseRoot (Suc (Suc (Suc (Suc (Suc 0))))) exampleStemmer yaktubun yaktubun ktb 1 4 1 4
     [(0, [(0, 6), (0, 4)]), (1, [(1, 6), (1, 4)])] = Inr ktb \<and>
   length (runes ktb) \<in> {2, 3, 4}"
proof -
  have e: "\<exists>c \<in> set [ktb, ktb, ktb, ktb]. length (runes c) \<in> {2, 3, 4}"
    by (simp add: runes_ktb)
  from chooseRoot_root_length [OF candidateRoots_yaktubun e]
  have "length (runes ktb) \<in> {2, 3, 4}" by (simp only: chooseRoot_yaktubun) simp
  moreover have "list_ex (\<lambda>c. length (runes c) \<in> {2, 3, 4}) [ktb, ktb, ktb, ktb]"
    by (simp add: runes_ktb)
  ultimately show ?thesis using candidateRoots_yaktubun chooseRoot_yaktubun by blast
qed

text \<open>
  The length filter of \<open>chooseRoot\<close> counts bytes: of a root of three letters and a root
  of one letter it keeps the second. The candidates of a call are all equal, which is why
  the filter cannot drop the root of the right length.
\<close>

lemma selectRoot_counts_bytes: "selectRoot exampleStemmer [ktb, kaf] = kaf"
  by (simp add: example codec letters stem_defs words cong: cbv)

subsection \<open>Stems of three letters\<close>

text \<open>
  \<open>extractRoot\<close> returns the stem, with Alef turned into Waw and Alef Maksura into Yeh,
  when \<open>len(stem) == 3\<close>: three bytes. Three letters outside ASCII take six bytes or
  more, and go through the star stem.
\<close>

lemma extractRoot_three_bytes:
  assumes "getStem fuel als word unvocalized left right stemLeft stemRight prefixIndex
             suffixIndex segmentList = Inr stem"
    and "length stem = 3"
  shows "extractRoot fuel als word unvocalized root left right stemLeft stemRight prefixIndex
           suffixIndex segmentList
         = Inr (ReplaceAll (ReplaceAll stem ALEF WAW) ALEF_MAKSURA YEH)"
proof -
  have "stem \<noteq> []" using assms(2) by auto
  then show ?thesis using assms by (simp add: extractRoot_def ajustRoot_def andThen_def)
qed

lemma length_EncodeRune_wide: "0x80 \<le> r \<Longrightarrow> 2 \<le> length (EncodeRune r)"
  by (simp add: EncodeRune_def)

lemma three_letters_six_bytes:
  assumes "length rs = 3" and "list_all (\<lambda>r. 0x80 \<le> r) rs"
  shows "6 \<le> length (gostring rs)"
proof -
  from assms(1) obtain a b c where rs: "rs = [a, b, c]"
    by (cases rs; cases "tl rs"; cases "tl (tl rs)") auto
  with assms(2) have "2 \<le> length (EncodeRune a)" "2 \<le> length (EncodeRune b)"
    "2 \<le> length (EncodeRune c)" by (auto intro: length_EncodeRune_wide)
  then show ?thesis unfolding rs by (simp add: gostring_def)
qed

lemma getStem_kaa: "getStem (Suc 0) exampleStemmer kaa kaa 0 3 0 3 0 3 [] = Inr kaa"
  by (simp add: example codec letters stem_defs words cong: cbv)

lemma getStarStem_kaa: "getStarStem exampleStemmer kaa 0 3 0 3 = Inr ''**''"
  by (simp add: example codec letters stem_defs words cong: cbv)

lemma normalizeRoot_kaa: "normalizeRoot kaa = kaf"
  by (simp add: example codec letters stem_defs words cong: cbv)

lemma extractRoot_kaa:
  "extractRoot (Suc 0) exampleStemmer kaa kaa [] 0 3 0 3 0 3 [] = Inr (gostring [0x643, 0x83])"
  by (simp add: example codec letters stem_defs words cong: cbv)

lemma validStem_kaa: "validStem exampleStemmer kaa ''noun'' []"
  by (simp add: example codec letters stem_defs words cong: cbv)

lemma runes_kaa: "runes kaa = [0x643, 0x629, 0x629]"
  by (simp add: example codec letters stem_defs words cong: cbv)

lemma extractRoot_kaa_differs: "gostring [0x643, 0x83] \<noteq> kaf \<and> gostring [0x643, 0x83] \<noteq> kaa"
  by (simp add: example codec letters stem_defs words cong: cbv)

text \<open>
  Claim C5 says that a stem of three letters is returned as the root, up to the
  normalisation, and that no star stem is involved. The stem Kaf, Teh Marbuta, Teh
  Marbuta, which \<open>validStem\<close> accepts as a noun, has three letters and six bytes:
  \<open>extractRoot\<close> computes the star stem, normalises the stem to Kaf, and, the
  normalised root having two bytes, lets \<open>ajustRoot\<close> append the last byte of Kaf read as
  a code point. The result is Kaf followed by U+0083, neither the stem nor its
  normalisation.
\<close>

theorem extractRoot_three_letters_masked:
  "runes kaa = [0x643, 0x629, 0x629] \<and>
   getStem (Suc 0) exampleStemmer kaa kaa 0 3 0 3 0 3 [] = Inr kaa \<and>
   normalizeRoot kaa = kaf \<and>
   getStarStem exampleStemmer kaa 0 3 0 3 = Inr ''**'' \<and>
   extractRoot (Suc 0) exampleStemmer kaa kaa [] 0 3 0 3 0 3 [] = Inr (gostring [0x643, 0x83]) \<and>
   gostring [0x643, 0x83] \<noteq> kaf \<and> gostring [0x643, 0x83] \<noteq> kaa"
  using runes_kaa getStem_kaa normalizeRoot_kaa getStarStem_kaa extractRoot_kaa extractRoot_kaa_differs
  by blast

end
